theory Spec2Isabelle
  imports Complex_Main "HOL-Library.Multiset"
begin

section \<open>Data model (state/schemas.ts)\<close>

text \<open>
  The zod schemas of the repository, as records and datatypes. Fields that no modelled
  function reads (the raw bibliographic record and publisher URL of a study; the model
  name, prompt hash and seed of a vote; the run configuration and the fetch log of the
  state; all but the id of an extraction record) are left out; timestamps come from a
  clock that the model takes as a parameter.
\<close>

datatype Stage = Abstract | Fulltext

datatype Decision = Include | Exclude | Unsure

datatype FinalDecision = FInclude | FExclude

datatype Consensus = CInclude | CExclude | escalate_to_adjudicator

record Study =
  study_id :: string
  title :: string
  authors :: "string list"
  year :: int
  journal :: string
  doi :: "string option"
  abstract :: "string option"
  study_keywords :: "string list option"
  source_file :: string

record PCC =
  population :: string
  concept :: string
  context_pcc :: string

record Criteria =
  pcc :: PCC
  inclusion :: "string list"
  exclusion :: "string list"

record EvidenceQuote =
  quote_text :: string
  location :: string

record ScreeningDecision =
  sd_stage :: Stage
  agent_id :: string
  sd_study_id :: string
  decision :: Decision
  reasons :: "string list"
  evidence_quotes :: "EvidenceQuote list"
  sd_timestamp :: string

record ConsensusDecision =
  cd_stage :: Stage
  cd_study_id :: string
  votes :: "ScreeningDecision list"
  consensus :: Consensus
  final_decision :: FinalDecision
  adjudicator_rationale :: "string option"
  cd_timestamp :: string

record AdjudicatorResponse =
  ar_final_decision :: FinalDecision
  ar_adjudicator_rationale :: string

record ScreeningResponse =
  resp_decision :: Decision
  resp_reasons :: "string list"
  resp_evidence_quotes :: "EvidenceQuote list"

record FullTextExclusion =
  fx_study_id :: string
  fx_reason :: string

record PrismaCounts =
  identified :: int
  deduplicated :: int
  title_abstract_screened :: int
  abstract_excluded :: int
  fulltext_retrieved :: int
  fulltext_excluded :: "FullTextExclusion list"
  included :: int

record ExtractionRecord =
  er_study_id :: string

datatype WorkflowStage =
    Init
  | Ingested
  | Abstract_screening
  | Pdf_fetching
  | Pdf_to_markdown
  | Fulltext_screening
  | Extraction
  | Synthesis
  | Complete

record GlobalState =
  run_id :: string
  criteria :: "Criteria option"
  prospero_protocol :: "string option"
  studies :: "Study list"
  prisma_counts :: PrismaCounts
  abstract_decisions :: "ScreeningDecision list"
  abstract_consensus :: "ConsensusDecision list"
  fulltext_decisions :: "ScreeningDecision list"
  fulltext_consensus :: "ConsensusDecision list"
  extractions :: "ExtractionRecord list"
  missing_pdfs :: "string list"
  current_stage :: WorkflowStage
  created_at :: string
  updated_at :: string

text \<open>Every \<open>throw\<close> of the modelled code is a value of this type.\<close>

datatype error =
    Expected_3_votes nat
  | Adjudicator_rationale_required
  | Criteria_not_set
  | No_state_to_save
  | State_not_initialized
  | Failed_to_load_state
  | Schema_invalid
  | Type_error
  | Oracle_failed string

section \<open>Consensus (workflows/consensus.ts)\<close>

record ConsensusResult =
  needsAdjudication :: bool
  preliminaryConsensus :: Consensus

text \<open>\<open>votes.filter((v) => v.decision === d).length\<close>\<close>

definition countDecision :: "Decision \<Rightarrow> ScreeningDecision list \<Rightarrow> nat" where
  "countDecision d vs = length (filter (\<lambda>v. decision v = d) vs)"

definition calculateConsensus ::
  "string \<Rightarrow> ScreeningDecision list \<Rightarrow> Stage \<Rightarrow> error + ConsensusResult" where
  "calculateConsensus studyId vs stage =
     (if length vs \<noteq> 3 then Inl (Expected_3_votes (length vs))
      else
        let includeCount = countDecision Include vs;
            excludeCount = countDecision Exclude vs;
            unsureCount = countDecision Unsure vs
        in if unsureCount > 0 then
             Inr \<lparr>needsAdjudication = True, preliminaryConsensus = escalate_to_adjudicator\<rparr>
           else if includeCount \<ge> 2 then
             Inr \<lparr>needsAdjudication = False, preliminaryConsensus = CInclude\<rparr>
           else if excludeCount \<ge> 2 then
             Inr \<lparr>needsAdjudication = False, preliminaryConsensus = CExclude\<rparr>
           else
             Inr \<lparr>needsAdjudication = True, preliminaryConsensus = escalate_to_adjudicator\<rparr>)"

text \<open>
  The cast \<open>preliminaryConsensus as 'include' | 'exclude'\<close> of the non-adjudicated branch.
  It is only reached with \<open>needsAdjudication = false\<close>, where the consensus is one of the
  two; TypeScript's cast checks nothing, so the third value would pass through unchanged,
  which the two-valued type of the model cannot hold: it is sent to \<open>FInclude\<close> here and
  lemma \<open>calculateConsensus_decided\<close> shows the case never arises.
\<close>

fun asFinal :: "Consensus \<Rightarrow> FinalDecision" where
  "asFinal CInclude = FInclude"
| "asFinal CExclude = FExclude"
| "asFinal escalate_to_adjudicator = FInclude"

text \<open>
  \<open>!adjudicatorRationale\<close> holds for \<open>undefined\<close> and for the empty string;
  \<open>adjudicatorRationale || null\<close> maps both to \<open>null\<close>.
\<close>

definition falsy :: "string option \<Rightarrow> bool" where
  "falsy r = (case r of None \<Rightarrow> True | Some s \<Rightarrow> s = [])"

definition orNull :: "string option \<Rightarrow> string option" where
  "orNull r = (if falsy r then None else r)"

definition createConsensusDecision ::
  "string \<Rightarrow> string \<Rightarrow> ScreeningDecision list \<Rightarrow> Stage \<Rightarrow> string option
     \<Rightarrow> error + ConsensusDecision" where
  "createConsensusDecision now studyId vs stage adjudicatorRationale =
     (case calculateConsensus studyId vs stage of
        Inl e \<Rightarrow> Inl e
      | Inr r \<Rightarrow>
          if needsAdjudication r \<and> falsy adjudicatorRationale then
            Inl Adjudicator_rationale_required
          else
            Inr \<lparr>cd_stage = stage,
                 cd_study_id = studyId,
                 votes = vs,
                 consensus = preliminaryConsensus r,
                 final_decision =
                   (if needsAdjudication r then FInclude
                    else asFinal (preliminaryConsensus r)),
                 adjudicator_rationale = orNull adjudicatorRationale,
                 cd_timestamp = now\<rparr>)"

section \<open>Deduplication (tools/dedupe.ts)\<close>

subsection \<open>String normalisation\<close>

text \<open>
  Strings are byte strings; the character classes below are the ASCII part of JavaScript's
  \<open>\w\<close>, \<open>\s\<close> and \<open>toLowerCase\<close>.
\<close>

definition isUpper :: "char \<Rightarrow> bool" where
  "isUpper c = (let n = (of_char c :: nat) in 65 \<le> n \<and> n \<le> 90)"

definition lowerChar :: "char \<Rightarrow> char" where
  "lowerChar c = (if isUpper c then char_of ((of_char c :: nat) + 32) else c)"

definition toLowerCase :: "string \<Rightarrow> string" where
  "toLowerCase s = map lowerChar s"

definition isWordChar :: "char \<Rightarrow> bool" where
  "isWordChar c =
     (let n = (of_char c :: nat)
      in (48 \<le> n \<and> n \<le> 57) \<or> (65 \<le> n \<and> n \<le> 90) \<or> (97 \<le> n \<and> n \<le> 122) \<or> n = 95)"

definition isSpace :: "char \<Rightarrow> bool" where
  "isSpace c = (let n = (of_char c :: nat) in (9 \<le> n \<and> n \<le> 13) \<or> n = 32)"

text \<open>\<open>.replace(/[^\w\s]/g, '')\<close>\<close>

definition stripPunctuation :: "string \<Rightarrow> string" where
  "stripPunctuation s = filter (\<lambda>c. isWordChar c \<or> isSpace c) s"

text \<open>\<open>.replace(/\s+/g, ' ')\<close>: every maximal run of white space becomes one blank.\<close>

fun collapseSpaces :: "string \<Rightarrow> string" where
  "collapseSpaces [] = []"
| "collapseSpaces [c] = [if isSpace c then CHR '' '' else c]"
| "collapseSpaces (c # d # cs) =
     (if isSpace c then
        (if isSpace d then collapseSpaces (d # cs) else CHR '' '' # collapseSpaces (d # cs))
      else c # collapseSpaces (d # cs))"

definition trim :: "string \<Rightarrow> string" where
  "trim s = rev (dropWhile isSpace (rev (dropWhile isSpace s)))"

definition normalizeTitle :: "string \<Rightarrow> string" where
  "normalizeTitle t = trim (collapseSpaces (stripPunctuation (toLowerCase t)))"

definition normalizeAuthor :: "string \<Rightarrow> string" where
  "normalizeAuthor name = trim (collapseSpaces (stripPunctuation (toLowerCase name)))"

text \<open>
  \<open>normalizeDoi\<close>: strip a leading \<open>http://doi.org/\<close> or \<open>https://doi.org/\<close> (any case),
  then a leading \<open>doi:\<close> with the white space after it, lower-case, trim.
\<close>

definition stripPrefixCI :: "string \<Rightarrow> string \<Rightarrow> string option" where
  "stripPrefixCI p s =
     (if toLowerCase (take (length p) s) = p then Some (drop (length p) s) else None)"

definition stripDoiUrl :: "string \<Rightarrow> string" where
  "stripDoiUrl s =
     (case stripPrefixCI ''https://doi.org/'' s of
        Some r \<Rightarrow> r
      | None \<Rightarrow> (case stripPrefixCI ''http://doi.org/'' s of Some r \<Rightarrow> r | None \<Rightarrow> s))"

definition stripDoiScheme :: "string \<Rightarrow> string" where
  "stripDoiScheme s =
     (case stripPrefixCI ''doi:'' s of Some r \<Rightarrow> dropWhile isSpace r | None \<Rightarrow> s)"

definition normalizeDoi :: "string option \<Rightarrow> string option" where
  "normalizeDoi d =
     (case d of
        None \<Rightarrow> None
      | Some s \<Rightarrow> if s = [] then None
                  else Some (trim (toLowerCase (stripDoiScheme (stripDoiUrl s)))))"

subsection \<open>Similarity measures\<close>

text \<open>
  \<open>compareTitles\<close> calls \<open>stringSimilarity.compareTwoStrings\<close> of the npm package
  string-similarity, which is not part of the repository: the deduplication functions take
  it as the parameter \<open>sim\<close>. Real numbers stand for the doubles of the source.
\<close>

type_synonym similarity = "string \<Rightarrow> string \<Rightarrow> real"

definition compareTitles :: "similarity \<Rightarrow> string \<Rightarrow> string \<Rightarrow> real" where
  "compareTitles sim title1 title2 = sim (normalizeTitle title1) (normalizeTitle title2)"

text \<open>
  The Jaccard index of the two sets of normalised author names; a \<open>Set\<close> built from an
  array is the array without its repetitions.
\<close>

definition authorsOverlap :: "string list \<Rightarrow> string list \<Rightarrow> real" where
  "authorsOverlap authors1 authors2 =
     (if length authors1 = 0 \<or> length authors2 = 0 then 0
      else
        let normalized1 = remdups (map normalizeAuthor authors1);
            normalized2 = remdups (map normalizeAuthor authors2);
            intersection = remdups (filter (\<lambda>a. a \<in> set normalized2) normalized1);
            union = remdups (normalized1 @ normalized2)
        in real (length intersection) / real (length union))"

text \<open>
  For concrete runs the parameter is instantiated with the package's published
  algorithm, the Dice coefficient over the multisets of adjacent character pairs of the
  two strings with all white space removed.
\<close>

fun bigrams :: "string \<Rightarrow> (char \<times> char) list" where
  "bigrams (a # b # rest) = (a, b) # bigrams (b # rest)"
| "bigrams _ = []"

fun intersectionSize :: "(char \<times> char) list \<Rightarrow> (char \<times> char) list \<Rightarrow> nat" where
  "intersectionSize firstBigrams [] = 0"
| "intersectionSize firstBigrams (b # bs) =
     (if b \<in> set firstBigrams then Suc (intersectionSize (remove1 b firstBigrams) bs)
      else intersectionSize firstBigrams bs)"

definition compareTwoStrings :: similarity where
  "compareTwoStrings first second =
     (let f = filter (\<lambda>c. \<not> isSpace c) first;
          s = filter (\<lambda>c. \<not> isSpace c) second
      in if f = s then 1
         else if length f < 2 \<or> length s < 2 then 0
         else 2 * real (intersectionSize (bigrams f) (bigrams s))
                / real (length f + length s - 2))"

subsection \<open>The deduplication loop\<close>

text \<open>
  The audit reason. The source renders the two numeric reasons as text with
  \<open>toFixed(2)\<close>; the model keeps the number.
\<close>

datatype Reason =
    Exact_DOI_match
  | Title_similarity real
  | Same_authors_year_similar_title real

record DuplicateEntry =
  kept :: string
  removed :: "string list"
  reason :: Reason

record DedupeResult =
  unique :: "Study list"
  duplicates :: "DuplicateEntry list"

text \<open>\<open>study.doi &&\<close> holds for a DOI that is neither \<open>null\<close> nor empty.\<close>

definition truthy :: "string option \<Rightarrow> bool" where
  "truthy r = (\<not> falsy r)"

fun findDuplicate ::
  "similarity \<Rightarrow> Study \<Rightarrow> Study list \<Rightarrow> real \<Rightarrow> (Study \<times> Reason) option" where
  "findDuplicate sim study [] titleSimilarityThreshold = None"
| "findDuplicate sim study (candidate # rest) titleSimilarityThreshold =
     (if truthy (doi study) \<and> truthy (doi candidate) \<and> doi study = doi candidate then
        Some (candidate, Exact_DOI_match)
      else
        let titleSimilarity = compareTitles sim (title study) (title candidate)
        in if titleSimilarity \<ge> titleSimilarityThreshold then
             Some (candidate, Title_similarity titleSimilarity)
           else if year study = year candidate
                   \<and> authorsOverlap (authors study) (authors candidate) > 0.5
                   \<and> titleSimilarity > 0.7 then
             Some (candidate,
                   Same_authors_year_similar_title
                     (authorsOverlap (authors study) (authors candidate)))
           else findDuplicate sim study rest titleSimilarityThreshold)"

text \<open>\<open>existingEntry.removed.push(id)\<close> on the first entry whose \<open>kept\<close> is \<open>k\<close>.\<close>

fun pushRemoved :: "string \<Rightarrow> string \<Rightarrow> DuplicateEntry list \<Rightarrow> DuplicateEntry list" where
  "pushRemoved k sid [] = []"
| "pushRemoved k sid (d # ds) =
     (if kept d = k then d\<lparr>removed := removed d @ [sid]\<rparr> # ds
      else d # pushRemoved k sid ds)"

definition dedupeStep :: "similarity \<Rightarrow> real \<Rightarrow> DedupeResult \<Rightarrow> Study \<Rightarrow> DedupeResult" where
  "dedupeStep sim thr acc study =
     (case findDuplicate sim study (unique acc) thr of
        Some (m, r) \<Rightarrow>
          (case find (\<lambda>d. kept d = study_id m) (duplicates acc) of
             Some existingEntry \<Rightarrow>
               acc\<lparr>duplicates := pushRemoved (study_id m) (study_id study) (duplicates acc)\<rparr>
           | None \<Rightarrow>
               acc\<lparr>duplicates := duplicates acc
                      @ [\<lparr>kept = study_id m, removed = [study_id study], reason = r\<rparr>]\<rparr>)
      | None \<Rightarrow> acc\<lparr>unique := unique acc @ [study]\<rparr>)"

fun dedupeLoop :: "similarity \<Rightarrow> real \<Rightarrow> Study list \<Rightarrow> DedupeResult \<Rightarrow> DedupeResult" where
  "dedupeLoop sim thr [] acc = acc"
| "dedupeLoop sim thr (study # rest) acc = dedupeLoop sim thr rest (dedupeStep sim thr acc study)"

definition deduplicateStudies :: "similarity \<Rightarrow> Study list \<Rightarrow> real \<Rightarrow> DedupeResult" where
  "deduplicateStudies sim records titleSimilarityThreshold =
     dedupeLoop sim titleSimilarityThreshold records \<lparr>unique = [], duplicates = []\<rparr>"

section \<open>The state store (state/store.ts)\<close>

text \<open>
  A \<open>StateStore\<close> holds the in-memory state (\<open>null\<close> before \<open>init\<close> or \<open>load\<close>) and
  the content of its \<open>state.json\<close> file, if the file exists. Writing the file is taken to
  succeed; reading it fails when it does not exist or does not pass the schema.
\<close>

record StateStore =
  state :: "GlobalState option"
  state_file :: "GlobalState option"

text \<open>
  \<open>GlobalStateSchema.parse\<close>. On values of the model's types the only checks that can
  fail are the minimum lengths of a vote's reasons and evidence quotes; the counters are
  checked to be integers, which the type \<open>int\<close> already says, and nothing else.
\<close>

definition ScreeningDecisionSchema_ok :: "ScreeningDecision \<Rightarrow> bool" where
  "ScreeningDecisionSchema_ok v = (length (reasons v) \<ge> 2 \<and> length (evidence_quotes v) \<ge> 1)"

definition ConsensusDecisionSchema_ok :: "ConsensusDecision \<Rightarrow> bool" where
  "ConsensusDecisionSchema_ok c = list_all ScreeningDecisionSchema_ok (votes c)"

definition GlobalStateSchema_ok :: "GlobalState \<Rightarrow> bool" where
  "GlobalStateSchema_ok g =
     (list_all ScreeningDecisionSchema_ok (abstract_decisions g)
      \<and> list_all ConsensusDecisionSchema_ok (abstract_consensus g)
      \<and> list_all ScreeningDecisionSchema_ok (fulltext_decisions g)
      \<and> list_all ConsensusDecisionSchema_ok (fulltext_consensus g))"

text \<open>
  Store methods return the store they leave behind together with the error they threw,
  if any: a method that throws has still made the mutations that precede the throw.
\<close>

definition save :: "string \<Rightarrow> StateStore \<Rightarrow> StateStore \<times> error option" where
  "save now s =
     (case state s of
        None \<Rightarrow> (s, Some No_state_to_save)
      | Some g \<Rightarrow>
          let g' = g\<lparr>updated_at := now\<rparr>
          in if GlobalStateSchema_ok g' then (s\<lparr>state := Some g', state_file := Some g'\<rparr>, None)
             else (s\<lparr>state := Some g'\<rparr>, Some Schema_invalid))"

definition load :: "StateStore \<Rightarrow> StateStore \<times> error option" where
  "load s =
     (case state_file s of
        None \<Rightarrow> (s, Some Failed_to_load_state)
      | Some g \<Rightarrow>
          if GlobalStateSchema_ok g then (s\<lparr>state := Some g\<rparr>, None)
          else (s, Some Failed_to_load_state))"

definition update :: "string \<Rightarrow> (GlobalState \<Rightarrow> GlobalState) \<Rightarrow> StateStore \<Rightarrow> StateStore \<times> error option" where
  "update now updates s =
     (case state s of
        None \<Rightarrow> (s, Some State_not_initialized)
      | Some g \<Rightarrow> save now (s\<lparr>state := Some (updates g)\<rparr>))"

text \<open>
  \<open>append(key, items)\<close>, with the key given as the function that extends that array of
  the state; the keys used are all arrays, so the "not an array" throw has no branch.
\<close>

definition append_store :: "string \<Rightarrow> (GlobalState \<Rightarrow> GlobalState) \<Rightarrow> StateStore \<Rightarrow> StateStore \<times> error option" where
  "append_store now grow s =
     (case state s of
        None \<Rightarrow> (s, Some State_not_initialized)
      | Some g \<Rightarrow> save now (s\<lparr>state := Some (grow g)\<rparr>))"

definition storeInit :: "string \<Rightarrow> string \<Rightarrow> StateStore \<Rightarrow> StateStore \<times> error option" where
  "storeInit now runId s =
     save now
       (s\<lparr>state := Some
          \<lparr>run_id = runId, criteria = None, prospero_protocol = None, studies = [],
           prisma_counts =
             \<lparr>identified = 0, deduplicated = 0, title_abstract_screened = 0,
              abstract_excluded = 0, fulltext_retrieved = 0, fulltext_excluded = [],
              included = 0\<rparr>,
           abstract_decisions = [], abstract_consensus = [], fulltext_decisions = [],
           fulltext_consensus = [], extractions = [], missing_pdfs = [],
           current_stage = Init, created_at = now, updated_at = now\<rparr>\<rparr>)"

text \<open>
  A direct assignment to a field of the object that \<open>getState()\<close> returned: the store
  holds the same object, so the assignment changes the store's state.
\<close>

definition assign :: "(GlobalState \<Rightarrow> GlobalState) \<Rightarrow> StateStore \<Rightarrow> StateStore" where
  "assign f s = s\<lparr>state := map_option f (state s)\<rparr>"

section \<open>The workflow (the full implementation of workflows/scopingReview)\<close>

text \<open>
  What the workflow asks of the outside world: the clock, the replies of the language
  model behind the screening agents (already parsed as JSON) and behind the adjudicator
  (already validated), whether the PDF directory holds a valid PDF for a study id
  (\<open>PdfFetcher.isValidPdf\<close>), the text extracted from that PDF (\<open>None\<close> when
  \<open>extractPdfText\<close> throws, which it does on a file that fails the same validity test),
  and the data extractor. An oracle that fails returns \<open>Inl\<close>.
\<close>

type_synonym ExtractedPdf = "string list"

record Env =
  clock :: string
  llmScreenAbstract :: "string \<Rightarrow> Study \<Rightarrow> Criteria \<Rightarrow> error + ScreeningResponse"
  llmScreenFulltext :: "string \<Rightarrow> Study \<Rightarrow> ExtractedPdf \<Rightarrow> Criteria \<Rightarrow> error + ScreeningResponse"
  adjudicate ::
    "Study \<Rightarrow> ScreeningDecision list \<Rightarrow> Criteria \<Rightarrow> Stage \<Rightarrow> ExtractedPdf option
       \<Rightarrow> error + AdjudicatorResponse"
  validPdf :: "string \<Rightarrow> bool"
  extractPdfText :: "string \<Rightarrow> ExtractedPdf option"
  extractBatch :: "(Study \<times> ExtractedPdf) list \<Rightarrow> error + ExtractionRecord list"

text \<open>
  \<open>AbstractScreeningAgent.screen\<close> and \<open>FullTextScreeningAgent.screen\<close>: the reply is
  validated against the response schema (at least two reasons; at least one evidence
  quote for an abstract, two for a full text) and stamped with stage, agent and study.
\<close>

definition screenAbstract :: "Env \<Rightarrow> Criteria \<Rightarrow> Study \<Rightarrow> string \<Rightarrow> error + ScreeningDecision" where
  "screenAbstract env crit study agentId =
     (case llmScreenAbstract env agentId study crit of
        Inl e \<Rightarrow> Inl e
      | Inr validated \<Rightarrow>
          if length (resp_reasons validated) \<ge> 2 \<and> length (resp_evidence_quotes validated) \<ge> 1
          then Inr \<lparr>sd_stage = Abstract, agent_id = agentId, sd_study_id = study_id study,
                    decision = resp_decision validated, reasons = resp_reasons validated,
                    evidence_quotes = resp_evidence_quotes validated,
                    sd_timestamp = clock env\<rparr>
          else Inl Schema_invalid)"

definition screenFulltext ::
  "Env \<Rightarrow> Criteria \<Rightarrow> Study \<Rightarrow> ExtractedPdf \<Rightarrow> string \<Rightarrow> error + ScreeningDecision" where
  "screenFulltext env crit study pdfText agentId =
     (case llmScreenFulltext env agentId study pdfText crit of
        Inl e \<Rightarrow> Inl e
      | Inr validated \<Rightarrow>
          if length (resp_reasons validated) \<ge> 2 \<and> length (resp_evidence_quotes validated) \<ge> 2
          then Inr \<lparr>sd_stage = Fulltext, agent_id = agentId, sd_study_id = study_id study,
                    decision = resp_decision validated, reasons = resp_reasons validated,
                    evidence_quotes = resp_evidence_quotes validated,
                    sd_timestamp = clock env\<rparr>
          else Inl Schema_invalid)"

definition abstractAgents :: "string list" where
  "abstractAgents = [''abstract-screener-1'', ''abstract-screener-2'', ''abstract-screener-3'']"

definition fulltextAgents :: "string list" where
  "fulltextAgents = [''fulltext-screener-1'', ''fulltext-screener-2'', ''fulltext-screener-3'']"

text \<open>\<open>Promise.all\<close>: all the results in order, or the first failure.\<close>

fun promiseAll :: "(error + 'a) list \<Rightarrow> error + 'a list" where
  "promiseAll [] = Inr []"
| "promiseAll (Inl e # rest) = Inl e"
| "promiseAll (Inr a # rest) = (case promiseAll rest of Inl e \<Rightarrow> Inl e | Inr as \<Rightarrow> Inr (a # as))"

text \<open>
  The block that \<open>abstractScreening\<close> and \<open>fullTextScreening\<close> share, from
  \<open>calculateConsensus\<close> to the finished \<open>consensus\<close> object: on escalation the
  adjudicator is asked, \<open>createConsensusDecision\<close> is called with its rationale, and the
  final decision of the object is then overwritten with the adjudicator's.
\<close>

definition resolveVerdict ::
  "Env \<Rightarrow> Criteria \<Rightarrow> Study \<Rightarrow> ScreeningDecision list \<Rightarrow> Stage \<Rightarrow> ExtractedPdf option
     \<Rightarrow> error + ConsensusDecision" where
  "resolveVerdict env crit study vs stage pdfText =
     (case calculateConsensus (study_id study) vs stage of
        Inl e \<Rightarrow> Inl e
      | Inr r \<Rightarrow>
          if needsAdjudication r then
            (case adjudicate env study vs crit stage pdfText of
               Inl e \<Rightarrow> Inl e
             | Inr adjudication \<Rightarrow>
                 (case createConsensusDecision (clock env) (study_id study) vs stage
                         (Some (ar_adjudicator_rationale adjudication)) of
                    Inl e \<Rightarrow> Inl e
                  | Inr c \<Rightarrow> Inr (c\<lparr>final_decision := ar_final_decision adjudication\<rparr>)))
          else createConsensusDecision (clock env) (study_id study) vs stage None)"

text \<open>One iteration of the loop of \<open>abstractScreening\<close>, and the loop. The pair counts
  the records included and excluded so far.\<close>

definition abstractStep ::
  "Env \<Rightarrow> Criteria \<Rightarrow> Study \<Rightarrow> nat \<times> nat \<Rightarrow> StateStore \<Rightarrow> StateStore \<times> (error + nat \<times> nat)" where
  "abstractStep env crit study counts s =
     (case promiseAll (map (screenAbstract env crit study) abstractAgents) of
        Inl e \<Rightarrow> (s, Inl e)
      | Inr vs \<Rightarrow>
          (case resolveVerdict env crit study vs Abstract None of
             Inl e \<Rightarrow> (s, Inl e)
           | Inr c \<Rightarrow>
               let counts' = (if final_decision c = FInclude then (fst counts + 1, snd counts)
                              else (fst counts, snd counts + 1))
               in (case append_store (clock env)
                          (\<lambda>g. g\<lparr>abstract_decisions := abstract_decisions g @ vs\<rparr>) s of
                     (s1, Some e) \<Rightarrow> (s1, Inl e)
                   | (s1, None) \<Rightarrow>
                       (case append_store (clock env)
                               (\<lambda>g. g\<lparr>abstract_consensus := abstract_consensus g @ [c]\<rparr>) s1 of
                          (s2, Some e) \<Rightarrow> (s2, Inl e)
                        | (s2, None) \<Rightarrow>
                            if (fst counts' + snd counts') mod 10 = 0 then
                              (case save (clock env) s2 of
                                 (s3, Some e) \<Rightarrow> (s3, Inl e)
                               | (s3, None) \<Rightarrow> (s3, Inr counts'))
                            else (s2, Inr counts')))))"

fun abstractLoop ::
  "Env \<Rightarrow> Criteria \<Rightarrow> Study list \<Rightarrow> nat \<times> nat \<Rightarrow> StateStore \<Rightarrow> StateStore \<times> (error + nat \<times> nat)" where
  "abstractLoop env crit [] counts s = (s, Inr counts)"
| "abstractLoop env crit (study # rest) counts s =
     (case abstractStep env crit study counts s of
        (s', Inl e) \<Rightarrow> (s', Inl e)
      | (s', Inr counts') \<Rightarrow> abstractLoop env crit rest counts' s')"

text \<open>
  \<open>abstractScreening\<close>. It screens every study of the state. The CSV table it writes at
  the end for the included studies does not touch the state and is left out.
\<close>

definition abstractScreening :: "Env \<Rightarrow> StateStore \<Rightarrow> StateStore \<times> error option" where
  "abstractScreening env s =
     (case state s of
        None \<Rightarrow> (s, Some State_not_initialized)
      | Some g \<Rightarrow>
          (case criteria g of
             None \<Rightarrow> (s, Some Criteria_not_set)
           | Some crit \<Rightarrow>
               (case abstractLoop env crit (studies g) (0, 0) s of
                  (s', Inl e) \<Rightarrow> (s', Some e)
                | (s', Inr counts) \<Rightarrow>
                    save (clock env)
                      (assign (\<lambda>g'. g'\<lparr>prisma_counts := (prisma_counts g')
                                            \<lparr>title_abstract_screened := int (length (studies g)),
                                             abstract_excluded := int (snd counts)\<rparr>,
                                        current_stage := Abstract_screening\<rparr>) s'))))"

text \<open>
  The studies that passed abstract screening, as every later stage computes them: one
  entry per consensus decision with final decision include, in the order of the
  decisions, looked up by id among the studies; decisions of unknown ids are dropped.
\<close>

definition includedStudies :: "ConsensusDecision list \<Rightarrow> Study list \<Rightarrow> Study list" where
  "includedStudies cons studs =
     List.map_filter (\<lambda>c. find (\<lambda>st. study_id st = cd_study_id c) studs)
       (filter (\<lambda>c. final_decision c = FInclude) cons)"

text \<open>
  \<open>pdfFetchingGate\<close> with \<open>PdfFetcher.checkAvailablePdfs\<close>: \<open>available\<close> is a map keyed
  by study id, so its size counts distinct ids; \<open>missing\<close> is a list.
\<close>

definition pdfFetchingGate :: "Env \<Rightarrow> StateStore \<Rightarrow> StateStore \<times> error option" where
  "pdfFetchingGate env s =
     (case state s of
        None \<Rightarrow> (s, Some State_not_initialized)
      | Some g \<Rightarrow>
          let inc = includedStudies (abstract_consensus g) (studies g);
              available = remdups (filter (validPdf env) (map study_id inc));
              missing = filter (\<lambda>i. \<not> validPdf env i) (map study_id inc)
          in save (clock env)
               (assign (\<lambda>g'. g'\<lparr>missing_pdfs := missing,
                                 current_stage := Pdf_fetching,
                                 prisma_counts := (prisma_counts g')
                                   \<lparr>fulltext_retrieved := int (length available)\<rparr>\<rparr>) s))"

text \<open>\<open>consensus.votes[0].reasons[0] || 'See decision log'\<close>; a consensus object has
  three votes.\<close>

definition firstReason :: "ConsensusDecision \<Rightarrow> string" where
  "firstReason c =
     (case votes c of
        [] \<Rightarrow> ''See decision log''
      | v # _ \<Rightarrow> (case reasons v of
                    [] \<Rightarrow> ''See decision log''
                  | r # _ \<Rightarrow> if r = [] then ''See decision log'' else r))"

text \<open>One iteration of the screening loop of \<open>fullTextScreening\<close>, and the loop. A study
  whose PDF could not be extracted is skipped. The number counts the records included.\<close>

definition fulltextStep ::
  "Env \<Rightarrow> Study \<Rightarrow> nat \<Rightarrow> StateStore \<Rightarrow> StateStore \<times> (error + nat)" where
  "fulltextStep env study includedCount s =
     (case extractPdfText env (study_id study) of
        None \<Rightarrow> (s, Inr includedCount)
      | Some pdfText \<Rightarrow>
          (case state s of
             None \<Rightarrow> (s, Inl State_not_initialized)
           | Some g \<Rightarrow>
               (case criteria g of
                  None \<Rightarrow> (s, Inl Type_error)
                | Some crit \<Rightarrow>
                    (case promiseAll (map (screenFulltext env crit study pdfText) fulltextAgents) of
                       Inl e \<Rightarrow> (s, Inl e)
                     | Inr vs \<Rightarrow>
                         (case resolveVerdict env crit study vs Fulltext (Some pdfText) of
                            Inl e \<Rightarrow> (s, Inl e)
                          | Inr c \<Rightarrow>
                              let includedCount' =
                                    (if final_decision c = FInclude then includedCount + 1
                                     else includedCount);
                                  s0 = (if final_decision c = FInclude then s
                                        else assign (\<lambda>g'. g'\<lparr>prisma_counts := (prisma_counts g')
                                               \<lparr>fulltext_excluded :=
                                                  fulltext_excluded (prisma_counts g')
                                                  @ [\<lparr>fx_study_id = study_id study,
                                                      fx_reason = firstReason c\<rparr>]\<rparr>\<rparr>) s)
                              in (case append_store (clock env)
                                         (\<lambda>g'. g'\<lparr>fulltext_decisions := fulltext_decisions g' @ vs\<rparr>)
                                         s0 of
                                    (s1, Some e) \<Rightarrow> (s1, Inl e)
                                  | (s1, None) \<Rightarrow>
                                      (case append_store (clock env)
                                              (\<lambda>g'. g'\<lparr>fulltext_consensus :=
                                                           fulltext_consensus g' @ [c]\<rparr>) s1 of
                                         (s2, Some e) \<Rightarrow> (s2, Inl e)
                                       | (s2, None) \<Rightarrow> (s2, Inr includedCount'))))))))"

fun fulltextLoop ::
  "Env \<Rightarrow> Study list \<Rightarrow> nat \<Rightarrow> StateStore \<Rightarrow> StateStore \<times> (error + nat)" where
  "fulltextLoop env [] includedCount s = (s, Inr includedCount)"
| "fulltextLoop env (study # rest) includedCount s =
     (case fulltextStep env study includedCount s of
        (s', Inl e) \<Rightarrow> (s', Inl e)
      | (s', Inr includedCount') \<Rightarrow> fulltextLoop env rest includedCount' s')"

definition fullTextScreening :: "Env \<Rightarrow> StateStore \<Rightarrow> StateStore \<times> error option" where
  "fullTextScreening env s =
     (case state s of
        None \<Rightarrow> (s, Some State_not_initialized)
      | Some g \<Rightarrow>
          (case fulltextLoop env (includedStudies (abstract_consensus g) (studies g)) 0 s of
             (s', Inl e) \<Rightarrow> (s', Some e)
           | (s', Inr includedCount) \<Rightarrow>
               save (clock env)
                 (assign (\<lambda>g'. g'\<lparr>current_stage := Fulltext_screening,
                                   prisma_counts := (prisma_counts g')
                                     \<lparr>included := int includedCount\<rparr>\<rparr>) s')))"

definition dataExtraction :: "Env \<Rightarrow> StateStore \<Rightarrow> StateStore \<times> error option" where
  "dataExtraction env s =
     (case state s of
        None \<Rightarrow> (s, Some State_not_initialized)
      | Some g \<Rightarrow>
          let finalIncluded = includedStudies (fulltext_consensus g) (studies g);
              studiesWithPdfs =
                List.map_filter
                  (\<lambda>st. map_option (\<lambda>pdfText. (st, pdfText)) (extractPdfText env (study_id st)))
                  finalIncluded
          in (case extractBatch env studiesWithPdfs of
                Inl e \<Rightarrow> (s, Some e)
              | Inr ex \<Rightarrow>
                  save (clock env)
                    (assign (\<lambda>g'. g'\<lparr>extractions := ex, current_stage := Extraction\<rparr>) s)))"

text \<open>\<open>synthesis\<close> and \<open>export\<close> write figures, tables and manuscripts from the state and
  then move the stage marker.\<close>

definition synthesis :: "Env \<Rightarrow> StateStore \<Rightarrow> StateStore \<times> error option" where
  "synthesis env s =
     (case state s of
        None \<Rightarrow> (s, Some State_not_initialized)
      | Some g \<Rightarrow> save (clock env) (assign (\<lambda>g'. g'\<lparr>current_stage := Synthesis\<rparr>) s))"

definition export :: "Env \<Rightarrow> StateStore \<Rightarrow> StateStore \<times> error option" where
  "export env s =
     (case state s of
        None \<Rightarrow> (s, Some State_not_initialized)
      | Some g \<Rightarrow> save (clock env) (assign (\<lambda>g'. g'\<lparr>current_stage := Complete\<rparr>) s))"

subsection \<open>The driver\<close>

definition stageOrder :: "WorkflowStage list" where
  "stageOrder = [Init, Ingested, Abstract_screening, Pdf_fetching, Pdf_to_markdown,
                 Fulltext_screening, Extraction, Synthesis, Complete]"

text \<open>\<open>Array.prototype.indexOf\<close>: the first position of the element, or \<open>-1\<close>.\<close>

fun indexOf :: "'a list \<Rightarrow> 'a \<Rightarrow> int" where
  "indexOf [] x = -1"
| "indexOf (y # ys) x = (if y = x then 0 else let i = indexOf ys x in if i < 0 then -1 else i + 1)"

definition shouldRunStage :: "WorkflowStage \<Rightarrow> WorkflowStage \<Rightarrow> bool" where
  "shouldRunStage currentStage targetStage =
     (indexOf stageOrder targetStage \<ge> indexOf stageOrder currentStage)"

text \<open>
  \<open>if (this.shouldRunStage(state.current_stage, target)) await stage()\<close>, where
  \<open>state\<close> is the object of the store, so the marker read is the current one.
\<close>

definition whenDue :: "WorkflowStage \<Rightarrow> (StateStore \<Rightarrow> StateStore \<times> error option)
    \<Rightarrow> StateStore \<Rightarrow> StateStore \<times> error option" where
  "whenDue target stage s =
     (case state s of
        None \<Rightarrow> (s, Some State_not_initialized)
      | Some g \<Rightarrow> if shouldRunStage (current_stage g) target then stage s else (s, None))"

definition andThen :: "(StateStore \<Rightarrow> StateStore \<times> error option)
    \<Rightarrow> (StateStore \<Rightarrow> StateStore \<times> error option) \<Rightarrow> StateStore \<Rightarrow> StateStore \<times> error option" where
  "andThen first second s =
     (case first s of
        (s', None) \<Rightarrow> second s'
      | (s', Some e) \<Rightarrow> (s', Some e))"

definition stages :: "Env \<Rightarrow> StateStore \<Rightarrow> StateStore \<times> error option" where
  "stages env =
     andThen (whenDue Abstract_screening (abstractScreening env))
    (andThen (whenDue Pdf_fetching (pdfFetchingGate env))
    (andThen (whenDue Fulltext_screening (fullTextScreening env))
    (andThen (whenDue Extraction (dataExtraction env))
    (andThen (whenDue Synthesis (synthesis env))
             (whenDue Complete (export env))))))"

text \<open>
  The input of a run: the criteria, the protocol text, the records that the format
  parsers produced for each search file, and the title threshold of the configuration.
\<close>

record WorkflowInput =
  in_criteria :: Criteria
  in_prospero :: "string option"
  searchFiles :: "Study list list"
  title_similarity :: real

definition init :: "Env \<Rightarrow> string \<Rightarrow> WorkflowInput \<Rightarrow> StateStore \<Rightarrow> StateStore \<times> error option" where
  "init env runId input =
     andThen (storeInit (clock env) runId)
             (update (clock env)
                (\<lambda>g. g\<lparr>criteria := Some (in_criteria input),
                        prospero_protocol := in_prospero input,
                        current_stage := Init\<rparr>))"

definition ingest :: "Env \<Rightarrow> similarity \<Rightarrow> WorkflowInput \<Rightarrow> StateStore \<Rightarrow> StateStore \<times> error option" where
  "ingest env sim input =
     (let allStudies = concat (searchFiles input);
          result = deduplicateStudies sim allStudies (title_similarity input)
      in andThen
           (update (clock env) (\<lambda>g. g\<lparr>studies := unique result, current_stage := Ingested\<rparr>))
           (\<lambda>s. save (clock env)
                  (assign (\<lambda>g. g\<lparr>prisma_counts := (prisma_counts g)
                                   \<lparr>identified := int (length allStudies),
                                    deduplicated := int (length (unique result))\<rparr>\<rparr>) s)))"

text \<open>
  \<open>run\<close>: resume from the state file when it loads, else initialise and ingest; then the
  stages; on any error save the state and rethrow.
\<close>

definition run :: "Env \<Rightarrow> similarity \<Rightarrow> string \<Rightarrow> WorkflowInput \<Rightarrow> StateStore \<Rightarrow> StateStore \<times> error option" where
  "run env sim runId input s =
     (let body =
            (case load s of
               (s1, None) \<Rightarrow> andThen load (stages env) s1
             | (s1, Some e) \<Rightarrow>
                 andThen (init env runId input)
                   (andThen (if searchFiles input \<noteq> [] then ingest env sim input
                             else (\<lambda>s'. (s', None)))
                            (stages env)) s1)
      in case body of
           (s', None) \<Rightarrow> (s', None)
         | (s', Some e) \<Rightarrow>
             (case save (clock env) s' of
                (s'', None) \<Rightarrow> (s'', Some e)
              | (s'', Some e') \<Rightarrow> (s'', Some e')))"

section \<open>Specification-side definitions and test fixtures\<close>

text \<open>
  The decision rule in the words of the specification (section 4.3), over the bare list of
  the three decisions: any \<open>unsure\<close> escalates; else two or more \<open>include\<close> decide
  include; else two or more \<open>exclude\<close> decide exclude; else escalate.
\<close>

datatype Resolution = decided FinalDecision | escalate

definition resolve_spec :: "Decision list \<Rightarrow> Resolution" where
  "resolve_spec ds =
     (if Unsure \<in> set ds then escalate
      else if count_list ds Include \<ge> 2 then decided FInclude
      else if count_list ds Exclude \<ge> 2 then decided FExclude
      else escalate)"

text \<open>How \<open>calculateConsensus\<close> renders a resolution.\<close>

fun resolutionResult :: "Resolution \<Rightarrow> ConsensusResult" where
  "resolutionResult escalate =
     \<lparr>needsAdjudication = True, preliminaryConsensus = escalate_to_adjudicator\<rparr>"
| "resolutionResult (decided FInclude) =
     \<lparr>needsAdjudication = False, preliminaryConsensus = CInclude\<rparr>"
| "resolutionResult (decided FExclude) =
     \<lparr>needsAdjudication = False, preliminaryConsensus = CExclude\<rparr>"

text \<open>\<open>createMockDecision\<close> of \<open>__tests__/consensus.test.ts\<close>.\<close>

definition createMockDecision :: "Decision \<Rightarrow> string \<Rightarrow> ScreeningDecision" where
  "createMockDecision d agentId =
     \<lparr>sd_stage = Abstract, agent_id = agentId, sd_study_id = ''test-study'', decision = d,
      reasons = [''Reason 1'', ''Reason 2''],
      evidence_quotes = [\<lparr>quote_text = ''Quote'', location = ''Abstract''\<rparr>],
      sd_timestamp = ''2025-01-05T00:00:00.000Z''\<rparr>"

text \<open>
  \<open>irredundant sim thr pre xs\<close>: no element of \<open>xs\<close> is found to duplicate anything
  before it, in \<open>pre\<close> or earlier in \<open>xs\<close>.
\<close>

fun irredundant :: "similarity \<Rightarrow> real \<Rightarrow> Study list \<Rightarrow> Study list \<Rightarrow> bool" where
  "irredundant sim thr pre [] = True"
| "irredundant sim thr pre (x # xs) =
     (findDuplicate sim x pre thr = None \<and> irredundant sim thr (pre @ [x]) xs)"

text \<open>All removed record ids of a duplicate list, and all record ids a result accounts for.\<close>

definition removedIds :: "DuplicateEntry list \<Rightarrow> string list" where
  "removedIds ds = concat (map removed ds)"

definition idsOf :: "DedupeResult \<Rightarrow> string multiset" where
  "idsOf acc = mset (map study_id (unique acc)) + mset (removedIds (duplicates acc))"

text \<open>A bibliographic record with the given id, title and DOI, for concrete runs.\<close>

definition mkStudy :: "string \<Rightarrow> string \<Rightarrow> string option \<Rightarrow> Study" where
  "mkStudy sid t d =
     \<lparr>study_id = sid, title = t, authors = [], year = 2020, journal = ''J'', doi = d,
      abstract = None, study_keywords = None, source_file = ''search.ris''\<rparr>"

subsection \<open>Verdicts and what a stage leaves untouched\<close>

text \<open>The escalation condition: \<open>calculateConsensus\<close> returns with \<open>needsAdjudication\<close>.\<close>

definition escalates :: "string \<Rightarrow> ScreeningDecision list \<Rightarrow> Stage \<Rightarrow> bool" where
  "escalates sid vs stage =
     (case calculateConsensus sid vs stage of Inl e \<Rightarrow> False | Inr r \<Rightarrow> needsAdjudication r)"

text \<open>
  \<open>verdictOf env crit stage study c\<close>: the consensus decision \<open>c\<close> is a faithful verdict
  of \<open>study\<close> at \<open>stage\<close>. If its votes meet the escalation condition, its final decision
  and rationale are the ones the adjudication oracle returns for this study and these
  votes; otherwise its final decision is the majority that \<open>calculateConsensus\<close> found.
\<close>

definition verdictOf ::
  "Env \<Rightarrow> Criteria \<Rightarrow> Stage \<Rightarrow> Study \<Rightarrow> ConsensusDecision \<Rightarrow> bool" where
  "verdictOf env crit stage study c =
     (cd_study_id c = study_id study \<and> cd_stage c = stage \<and>
      (if escalates (study_id study) (votes c) stage then
         (case adjudicate env study (votes c) crit stage
                 (if stage = Abstract then None else extractPdfText env (study_id study)) of
            Inl e \<Rightarrow> False
          | Inr a \<Rightarrow> final_decision c = ar_final_decision a
                     \<and> adjudicator_rationale c = Some (ar_adjudicator_rationale a))
       else (final_decision c = FInclude \<and> consensus c = CInclude
             \<or> final_decision c = FExclude \<and> consensus c = CExclude)))"

text \<open>The studies that the full-text loop does not skip.\<close>

definition hasPdf :: "Env \<Rightarrow> Study \<Rightarrow> bool" where
  "hasPdf env st = (extractPdfText env (study_id st) \<noteq> None)"

text \<open>
  A state with everything blanked that the abstract loop, and the full-text loop, may
  change: two states with equal images differ at most in those fields.
\<close>

definition eraseAbstract :: "GlobalState \<Rightarrow> GlobalState" where
  "eraseAbstract g = g\<lparr>abstract_decisions := [], abstract_consensus := [], updated_at := []\<rparr>"

definition eraseFulltext :: "GlobalState \<Rightarrow> GlobalState" where
  "eraseFulltext g =
     g\<lparr>fulltext_decisions := [], fulltext_consensus := [],
       prisma_counts := (prisma_counts g)\<lparr>fulltext_excluded := []\<rparr>, updated_at := []\<rparr>"






subsection \<open>Concrete runs\<close>

text \<open>
  Criteria, oracles and stores for concrete runs. In \<open>panelEnv\<close> the three agents of a
  panel answer include, exclude and unsure in this order; in \<open>includeEnv\<close> all three
  answer include. The adjudicator of both returns exclude with a rationale; every PDF is
  present and extractable.
\<close>

definition crit0 :: Criteria where
  "crit0 = \<lparr>pcc = \<lparr>population = ''adults'', concept = ''telehealth'',
                    context_pcc = ''primary care''\<rparr>,
            inclusion = [''published in English''], exclusion = [''editorials'']\<rparr>"

definition reply :: "Decision \<Rightarrow> ScreeningResponse" where
  "reply d =
     \<lparr>resp_decision = d, resp_reasons = [''Reason 1'', ''Reason 2''],
      resp_evidence_quotes = [\<lparr>quote_text = ''Quote 1'', location = ''Abstract''\<rparr>,
                              \<lparr>quote_text = ''Quote 2'', location = ''p.2''\<rparr>]\<rparr>"

definition panelVote :: "string \<Rightarrow> Decision" where
  "panelVote agentId =
     (if agentId = [] then Unsure
      else if last agentId = CHR ''1'' then Include
      else if last agentId = CHR ''2'' then Exclude
      else Unsure)"

definition mkEnv :: "(string \<Rightarrow> Decision) \<Rightarrow> Env" where
  "mkEnv vote =
     \<lparr>clock = ''2025-01-05T10:00:00.000Z'',
      llmScreenAbstract = (\<lambda>agentId st crit. Inr (reply (vote agentId))),
      llmScreenFulltext = (\<lambda>agentId st pdfText crit. Inr (reply (vote agentId))),
      adjudicate = (\<lambda>st vs crit stage pdfText.
         Inr \<lparr>ar_final_decision = FExclude,
              ar_adjudicator_rationale = ''Population does not match''\<rparr>),
      validPdf = (\<lambda>i. True),
      extractPdfText = (\<lambda>i. Some [''page 1'']),
      extractBatch = (\<lambda>ps. Inr (map (\<lambda>p. \<lparr>er_study_id = study_id (fst p)\<rparr>) ps))\<rparr>"

definition panelEnv :: Env where
  "panelEnv = mkEnv panelVote"


definition studyA :: Study where
  "studyA = mkStudy ''s1'' ''alpha'' None"

definition studyB :: Study where
  "studyB = mkStudy ''s2'' ''omega'' None"

text \<open>The state that \<open>ingest\<close> leaves for the given unique records.\<close>

definition ingestedState :: "Study list \<Rightarrow> GlobalState" where
  "ingestedState studs =
     \<lparr>run_id = ''run-1'', criteria = Some crit0, prospero_protocol = None, studies = studs,
      prisma_counts =
        \<lparr>identified = int (length studs), deduplicated = int (length studs),
         title_abstract_screened = 0, abstract_excluded = 0, fulltext_retrieved = 0,
         fulltext_excluded = [], included = 0\<rparr>,
      abstract_decisions = [], abstract_consensus = [], fulltext_decisions = [],
      fulltext_consensus = [], extractions = [], missing_pdfs = [],
      current_stage = Ingested, created_at = ''2025-01-05T09:00:00.000Z'',
      updated_at = ''2025-01-05T09:00:00.000Z''\<rparr>"

text \<open>A store whose state is in memory and on file, and a new store beside an old file.\<close>

definition loaded :: "GlobalState \<Rightarrow> StateStore" where
  "loaded g = \<lparr>state = Some g, state_file = Some g\<rparr>"





subsection \<open>The funnel\<close>









section \<open>Properties of the consensus rule\<close>

lemma countDecision_total:
  "countDecision Include vs + countDecision Exclude vs + countDecision Unsure vs = length vs"
proof (induction vs)
  case Nil
  show ?case by (simp add: countDecision_def)
next
  case (Cons v vs)
  then show ?case by (cases "decision v") (simp_all add: countDecision_def)
qed

lemma calculateConsensus_decided:
  assumes "calculateConsensus sid vs st = Inr r" and "\<not> needsAdjudication r"
  shows "preliminaryConsensus r \<noteq> escalate_to_adjudicator"
  using assms by (auto simp: calculateConsensus_def Let_def split: if_splits)

lemma countDecision_count_list: "countDecision d vs = count_list (map decision vs) d"
  by (induction vs) (auto simp: countDecision_def)

lemma countDecision_Unsure_mem:
  "(0 < countDecision Unsure vs) = (Unsure \<in> set (map decision vs))"
  by (induction vs) (auto simp: countDecision_def)

text \<open>
  Claim C4. For every list of exactly three votes \<open>calculateConsensus\<close> returns, without
  raising, the rendering of the specification's ordered rule applied to the three
  decisions: escalate if any vote is unsure, else decided include with at least two
  include votes, else decided exclude with at least two exclude votes.
\<close>

theorem calculateConsensus_follows_rule:
  assumes "length vs = 3"
  shows "calculateConsensus sid vs st = Inr (resolutionResult (resolve_spec (map decision vs)))"
  using assms countDecision_Unsure_mem[of vs]
  by (simp add: calculateConsensus_def Let_def resolve_spec_def countDecision_count_list
      del: set_map)

text \<open>
  The five vote lists named in the claim: three includes and include, include, exclude
  decide include; three excludes and exclude, exclude, include decide exclude; include,
  unsure, include escalates.
\<close>

theorem calculateConsensus_follows_rule_witness:
  "calculateConsensus ''test-study''
     [createMockDecision Include ''agent-1'', createMockDecision Include ''agent-2'',
      createMockDecision Include ''agent-3''] Abstract
   = Inr \<lparr>needsAdjudication = False, preliminaryConsensus = CInclude\<rparr>
   \<and> calculateConsensus ''test-study''
     [createMockDecision Include ''agent-1'', createMockDecision Include ''agent-2'',
      createMockDecision Exclude ''agent-3''] Abstract
   = Inr \<lparr>needsAdjudication = False, preliminaryConsensus = CInclude\<rparr>
   \<and> calculateConsensus ''test-study''
     [createMockDecision Exclude ''agent-1'', createMockDecision Exclude ''agent-2'',
      createMockDecision Exclude ''agent-3''] Abstract
   = Inr \<lparr>needsAdjudication = False, preliminaryConsensus = CExclude\<rparr>
   \<and> calculateConsensus ''test-study''
     [createMockDecision Exclude ''agent-1'', createMockDecision Exclude ''agent-2'',
      createMockDecision Include ''agent-3''] Abstract
   = Inr \<lparr>needsAdjudication = False, preliminaryConsensus = CExclude\<rparr>
   \<and> calculateConsensus ''test-study''
     [createMockDecision Include ''agent-1'', createMockDecision Unsure ''agent-2'',
      createMockDecision Include ''agent-3''] Abstract
   = Inr \<lparr>needsAdjudication = True, preliminaryConsensus = escalate_to_adjudicator\<rparr>"
  using
    calculateConsensus_follows_rule[of
      "[createMockDecision Include ''agent-1'', createMockDecision Include ''agent-2'',
        createMockDecision Include ''agent-3'']" "''test-study''" Abstract]
    calculateConsensus_follows_rule[of
      "[createMockDecision Include ''agent-1'', createMockDecision Include ''agent-2'',
        createMockDecision Exclude ''agent-3'']" "''test-study''" Abstract]
    calculateConsensus_follows_rule[of
      "[createMockDecision Exclude ''agent-1'', createMockDecision Exclude ''agent-2'',
        createMockDecision Exclude ''agent-3'']" "''test-study''" Abstract]
    calculateConsensus_follows_rule[of
      "[createMockDecision Exclude ''agent-1'', createMockDecision Exclude ''agent-2'',
        createMockDecision Include ''agent-3'']" "''test-study''" Abstract]
    calculateConsensus_follows_rule[of
      "[createMockDecision Include ''agent-1'', createMockDecision Unsure ''agent-2'',
        createMockDecision Include ''agent-3'']" "''test-study''" Abstract]
  by (simp add: resolve_spec_def createMockDecision_def)

text \<open>
  Claim C5. \<open>calculateConsensus\<close> raises exactly when the number of votes differs from
  three, and the error it raises is the vote-count error carrying the number received;
  with three votes it returns a result.
\<close>

theorem calculateConsensus_raises_iff:
  "(calculateConsensus sid vs st = Inl e) = (length vs \<noteq> 3 \<and> e = Expected_3_votes (length vs))"
  by (auto simp: calculateConsensus_def Let_def)

theorem calculateConsensus_raises_iff_witness:
  "calculateConsensus ''test-study''
     [createMockDecision Include ''agent-1'', createMockDecision Include ''agent-2''] Abstract
   = Inl (Expected_3_votes 2)"
  using calculateConsensus_raises_iff[of "''test-study''"
      "[createMockDecision Include ''agent-1'', createMockDecision Include ''agent-2'']"
      Abstract "Expected_3_votes 2"]
  by simp

text \<open>
  Claim C9. For three votes none of which is unsure, \<open>calculateConsensus\<close> returns a
  decided result, include or exclude, and never escalates: the final escalate branch is
  not reached.
\<close>

theorem calculateConsensus_no_unsure_decided:
  assumes "length vs = 3" and "Unsure \<notin> set (map decision vs)"
  shows "calculateConsensus sid vs st
           = Inr \<lparr>needsAdjudication = False, preliminaryConsensus = CInclude\<rparr>
       \<or> calculateConsensus sid vs st
           = Inr \<lparr>needsAdjudication = False, preliminaryConsensus = CExclude\<rparr>"
proof -
  have u: "countDecision Unsure vs = 0"
    using assms(2) countDecision_Unsure_mem[of vs] by simp
  have "countDecision Include vs + countDecision Exclude vs = 3"
    using countDecision_total[of vs] u assms(1) by simp
  then have "countDecision Include vs \<ge> 2 \<or> countDecision Exclude vs \<ge> 2"
    by arith
  then show ?thesis
    using assms(1) u by (auto simp: calculateConsensus_def Let_def)
qed

theorem calculateConsensus_no_unsure_decided_witness:
  "length [createMockDecision Include ''agent-1'', createMockDecision Exclude ''agent-2'',
           createMockDecision Exclude ''agent-3''] = 3
   \<and> Unsure \<notin> set (map decision
        [createMockDecision Include ''agent-1'', createMockDecision Exclude ''agent-2'',
         createMockDecision Exclude ''agent-3''])
   \<and> calculateConsensus ''test-study''
        [createMockDecision Include ''agent-1'', createMockDecision Exclude ''agent-2'',
         createMockDecision Exclude ''agent-3''] Abstract
      \<noteq> Inr \<lparr>needsAdjudication = True, preliminaryConsensus = escalate_to_adjudicator\<rparr>"
proof -
  have l: "length [createMockDecision Include ''agent-1'', createMockDecision Exclude ''agent-2'',
           createMockDecision Exclude ''agent-3''] = 3" by simp
  have n: "Unsure \<notin> set (map decision
        [createMockDecision Include ''agent-1'', createMockDecision Exclude ''agent-2'',
         createMockDecision Exclude ''agent-3''])"
    by (simp add: createMockDecision_def)
  from calculateConsensus_no_unsure_decided[OF l n, of "''test-study''" Abstract] l n
  show ?thesis by auto
qed

section \<open>Properties of deduplication\<close>

lemma dedupeLoop_keeps:
  "irredundant sim thr (unique acc) xs \<Longrightarrow>
   dedupeLoop sim thr xs acc = acc\<lparr>unique := unique acc @ xs\<rparr>"
proof (induction xs arbitrary: acc)
  case Nil
  show ?case by simp
next
  case (Cons x xs)
  from Cons.prems have none: "findDuplicate sim x (unique acc) thr = None"
    and rest: "irredundant sim thr (unique acc @ [x]) xs" by simp_all
  have step: "dedupeStep sim thr acc x = acc\<lparr>unique := unique acc @ [x]\<rparr>"
    using none by (simp add: dedupeStep_def)
  have "irredundant sim thr (unique (acc\<lparr>unique := unique acc @ [x]\<rparr>)) xs"
    using rest by simp
  from Cons.IH[OF this] show ?case using step by simp
qed

lemma dedupeLoop_irredundant:
  "\<exists>zs. unique (dedupeLoop sim thr xs acc) = unique acc @ zs
        \<and> irredundant sim thr (unique acc) zs"
proof (induction xs arbitrary: acc)
  case Nil
  show ?case by (rule exI[of _ "[]"]) simp
next
  case (Cons x xs)
  show ?case
  proof (cases "findDuplicate sim x (unique acc) thr")
    case None
    then have step: "dedupeStep sim thr acc x = acc\<lparr>unique := unique acc @ [x]\<rparr>"
      by (simp add: dedupeStep_def)
    from Cons.IH[of "acc\<lparr>unique := unique acc @ [x]\<rparr>"]
    obtain zs where zs:
      "unique (dedupeLoop sim thr xs (acc\<lparr>unique := unique acc @ [x]\<rparr>))
         = (unique acc @ [x]) @ zs"
      "irredundant sim thr (unique acc @ [x]) zs" by auto
    show ?thesis
      by (rule exI[of _ "x # zs"]) (use zs step None in simp)
  next
    case (Some mr)
    then have u: "unique (dedupeStep sim thr acc x) = unique acc"
      by (simp add: dedupeStep_def split: prod.splits option.splits)
    from Cons.IH[of "dedupeStep sim thr acc x"] u show ?thesis by simp
  qed
qed

text \<open>
  Claim C7. Deduplication is idempotent, for every similarity function, every input list
  and every threshold: deduplicating the unique list of a deduplication returns that same
  unique list and no duplicate entry.
\<close>

theorem deduplicateStudies_idempotent:
  "deduplicateStudies sim (unique (deduplicateStudies sim records thr)) thr
     = \<lparr>unique = unique (deduplicateStudies sim records thr), duplicates = []\<rparr>"
proof -
  obtain zs where zs: "unique (deduplicateStudies sim records thr) = zs"
    "irredundant sim thr [] zs"
    using dedupeLoop_irredundant[of sim thr records "\<lparr>unique = [], duplicates = []\<rparr>"]
    by (auto simp: deduplicateStudies_def)
  have "dedupeLoop sim thr zs \<lparr>unique = [], duplicates = []\<rparr>
          = \<lparr>unique = zs, duplicates = []\<rparr>"
    using dedupeLoop_keeps[of sim thr "\<lparr>unique = [], duplicates = []\<rparr>" zs] zs(2) by simp
  then show ?thesis using zs(1) by (simp add: deduplicateStudies_def)
qed

lemma findDuplicate_in: "findDuplicate sim s ex thr = Some (m, r) \<Longrightarrow> m \<in> set ex"
  by (induction ex) (auto simp: Let_def split: if_splits)

lemma kept_pushRemoved: "map kept (pushRemoved k sid ds) = map kept ds"
  by (induction ds) auto

lemma removedIds_pushRemoved:
  "find (\<lambda>d. kept d = k) ds = Some e \<Longrightarrow>
   mset (removedIds (pushRemoved k sid ds)) = add_mset sid (mset (removedIds ds))"
  by (induction ds) (auto simp: removedIds_def)

lemma removedIds_snoc: "removedIds (ds @ [e]) = removedIds ds @ removed e"
  by (simp add: removedIds_def)

lemma dedupeStep_ids: "idsOf (dedupeStep sim thr acc x) = add_mset (study_id x) (idsOf acc)"
proof (cases "findDuplicate sim x (unique acc) thr")
  case None
  then show ?thesis by (simp add: dedupeStep_def idsOf_def)
next
  case (Some mr)
  obtain m r where mr: "mr = (m, r)" by (cases mr)
  show ?thesis
  proof (cases "find (\<lambda>d. kept d = study_id m) (duplicates acc)")
    case None
    then show ?thesis using Some mr
      by (simp add: dedupeStep_def idsOf_def removedIds_snoc)
  next
    case (Some e)
    then show ?thesis using \<open>findDuplicate sim x (unique acc) thr = Some mr\<close> mr
      by (simp add: dedupeStep_def idsOf_def removedIds_pushRemoved)
  qed
qed

lemma dedupeStep_kept:
  assumes "set (map kept (duplicates acc)) \<subseteq> set (map study_id (unique acc))"
  shows "set (map kept (duplicates (dedupeStep sim thr acc x)))
           \<subseteq> set (map study_id (unique (dedupeStep sim thr acc x)))"
proof (cases "findDuplicate sim x (unique acc) thr")
  case None
  then show ?thesis using assms by (auto simp: dedupeStep_def)
next
  case (Some mr)
  obtain m r where mr: "mr = (m, r)" by (cases mr)
  have "m \<in> set (unique acc)" using Some mr findDuplicate_in by blast
  then have "study_id m \<in> set (map study_id (unique acc))" by simp
  then show ?thesis using assms Some mr
    by (auto simp: dedupeStep_def kept_pushRemoved simp del: set_map split: option.splits)
qed

lemma dedupeLoop_ids:
  "idsOf (dedupeLoop sim thr xs acc) = mset (map study_id xs) + idsOf acc"
  by (induction xs arbitrary: acc) (simp_all add: dedupeStep_ids)

lemma dedupeLoop_kept:
  "set (map kept (duplicates acc)) \<subseteq> set (map study_id (unique acc)) \<Longrightarrow>
   set (map kept (duplicates (dedupeLoop sim thr xs acc)))
     \<subseteq> set (map study_id (unique (dedupeLoop sim thr xs acc)))"
proof (induction xs arbitrary: acc)
  case Nil
  then show ?case by simp
next
  case (Cons x xs)
  from Cons.IH[OF dedupeStep_kept[OF Cons.prems]] show ?case by simp
qed

text \<open>
  Claim C10. Deduplication partitions its input: the ids of the unique records together
  with the removed ids of all duplicate groups are, counted with multiplicity, exactly
  the ids of the input records, so every input record is placed exactly once; hence the
  two lengths add up to the input length; and every group's kept id is the id of a record
  of the unique list.
\<close>

theorem deduplicateStudies_partitions:
  "mset (map study_id (unique (deduplicateStudies sim records thr)))
     + mset (removedIds (duplicates (deduplicateStudies sim records thr)))
   = mset (map study_id records)
   \<and> length (unique (deduplicateStudies sim records thr))
     + length (removedIds (duplicates (deduplicateStudies sim records thr)))
   = length records
   \<and> set (map kept (duplicates (deduplicateStudies sim records thr)))
     \<subseteq> set (map study_id (unique (deduplicateStudies sim records thr)))"
proof -
  let ?r = "deduplicateStudies sim records thr"
  have ids: "mset (map study_id (unique ?r)) + mset (removedIds (duplicates ?r))
               = mset (map study_id records)"
    using dedupeLoop_ids[of sim thr records "\<lparr>unique = [], duplicates = []\<rparr>"]
    by (simp add: deduplicateStudies_def removedIds_def idsOf_def)
  have "size (mset (map study_id (unique ?r)) + mset (removedIds (duplicates ?r)))
          = size (mset (map study_id records))"
    using ids by simp
  then have len: "length (unique ?r) + length (removedIds (duplicates ?r)) = length records"
    by simp
  have k: "set (map kept (duplicates ?r)) \<subseteq> set (map study_id (unique ?r))"
    using dedupeLoop_kept[of "\<lparr>unique = [], duplicates = []\<rparr>" sim thr records]
    by (simp add: deduplicateStudies_def)
  from ids len k show ?thesis by blast
qed

text \<open>
  Claim C3, at the input of the specification's scenario: two records whose DOIs are
  equal up to case (and are equal after \<open>normalizeDoi\<close>), with unrelated titles. The
  first strategy compares the stored DOI strings as they are, so no strategy matches:
  both records stay unique and no duplicate entry is written. With identical DOI strings
  the second record is removed with the exact-DOI reason.
\<close>

theorem deduplicateStudies_doi_case_differs:
  "normalizeDoi (Some ''10.1/ABC'') = normalizeDoi (Some ''10.1/abc'')
   \<and> deduplicateStudies compareTwoStrings
       [mkStudy ''s1'' ''alpha'' (Some ''10.1/ABC''),
        mkStudy ''s2'' ''omega'' (Some ''10.1/abc'')] 0.85
     = \<lparr>unique = [mkStudy ''s1'' ''alpha'' (Some ''10.1/ABC''),
                  mkStudy ''s2'' ''omega'' (Some ''10.1/abc'')],
        duplicates = []\<rparr>
   \<and> deduplicateStudies compareTwoStrings
       [mkStudy ''s1'' ''alpha'' (Some ''10.1/abc''),
        mkStudy ''s2'' ''omega'' (Some ''10.1/abc'')] 0.85
     = \<lparr>unique = [mkStudy ''s1'' ''alpha'' (Some ''10.1/abc'')],
        duplicates = [\<lparr>kept = ''s1'', removed = [''s2''], reason = Exact_DOI_match\<rparr>]\<rparr>"
  by code_simp

section \<open>Properties of the screening stages\<close>

lemma save_Some:
  "state s = Some g \<Longrightarrow>
   save now s =
     (if GlobalStateSchema_ok (g\<lparr>updated_at := now\<rparr>)
      then (s\<lparr>state := Some (g\<lparr>updated_at := now\<rparr>), state_file := Some (g\<lparr>updated_at := now\<rparr>)\<rparr>, None)
      else (s\<lparr>state := Some (g\<lparr>updated_at := now\<rparr>)\<rparr>, Some Schema_invalid))"
  by (simp add: save_def Let_def)

lemma append_store_Some:
  "state s = Some g \<Longrightarrow> append_store now f s = save now (s\<lparr>state := Some (f g)\<rparr>)"
  by (simp add: append_store_def)

lemma assign_Some: "state s = Some g \<Longrightarrow> assign f s = s\<lparr>state := Some (f g)\<rparr>"
  by (simp add: assign_def)

lemma calculateConsensus_cases:
  assumes "calculateConsensus sid vs st = Inr r"
  shows "r = \<lparr>needsAdjudication = True, preliminaryConsensus = escalate_to_adjudicator\<rparr>
       \<or> r = \<lparr>needsAdjudication = False, preliminaryConsensus = CInclude\<rparr>
       \<or> r = \<lparr>needsAdjudication = False, preliminaryConsensus = CExclude\<rparr>"
  using assms by (auto simp: calculateConsensus_def Let_def split: if_splits)

lemma resolveVerdict_verdictOf:
  assumes "resolveVerdict env crit study vs stage pdf = Inr c"
    and "pdf = (if stage = Abstract then None else extractPdfText env (study_id study))"
  shows "votes c = vs \<and> verdictOf env crit stage study c"
proof -
  obtain r where r: "calculateConsensus (study_id study) vs stage = Inr r"
    using assms(1) by (auto simp: resolveVerdict_def split: sum.splits)
  show ?thesis
  proof (cases "needsAdjudication r")
    case True
    then obtain a where a: "adjudicate env study vs crit stage pdf = Inr a"
      and c: "createConsensusDecision (clock env) (study_id study) vs stage
                (Some (ar_adjudicator_rationale a)) = Inr (c\<lparr>final_decision := final_decision c\<rparr>)
              \<or> True"
      using assms(1) r by (auto simp: resolveVerdict_def split: sum.splits)
    from assms(1) r True a obtain c0 where c0:
      "createConsensusDecision (clock env) (study_id study) vs stage
         (Some (ar_adjudicator_rationale a)) = Inr c0"
      "c = c0\<lparr>final_decision := ar_final_decision a\<rparr>"
      by (auto simp: resolveVerdict_def split: sum.splits)
    from c0(1) r True have
      "votes c0 = vs" "cd_study_id c0 = study_id study" "cd_stage c0 = stage"
      "adjudicator_rationale c0 = Some (ar_adjudicator_rationale a)"
      by (auto simp: createConsensusDecision_def orNull_def falsy_def split: if_splits)
    then show ?thesis using c0(2) a r True assms(2)
      by (simp add: verdictOf_def escalates_def)
  next
    case False
    then have c: "createConsensusDecision (clock env) (study_id study) vs stage None = Inr c"
      using assms(1) r by (simp add: resolveVerdict_def)
    from calculateConsensus_cases[OF r] False c r show ?thesis
      by (auto simp: createConsensusDecision_def verdictOf_def escalates_def)
  qed
qed

lemma resolveVerdict_abstract:
  "resolveVerdict env crit study vs Abstract None = Inr c \<Longrightarrow>
   votes c = vs \<and> verdictOf env crit Abstract study c"
  by (rule resolveVerdict_verdictOf) simp_all

lemma resolveVerdict_fulltext:
  "resolveVerdict env crit study vs Fulltext (Some pdf) = Inr c \<Longrightarrow>
   extractPdfText env (study_id study) = Some pdf \<Longrightarrow>
   votes c = vs \<and> verdictOf env crit Fulltext study c"
  by (rule resolveVerdict_verdictOf) simp_all

lemma abstractStep_any:
  assumes "state s = Some g"
    and "abstractStep env crit study counts s = (s', r)"
  shows "\<exists>g'. state s' = Some g' \<and> eraseAbstract g' = eraseAbstract g
           \<and> (\<exists>vs. abstract_decisions g' = abstract_decisions g @ vs)
           \<and> (abstract_consensus g' = abstract_consensus g
               \<or> (\<exists>c. abstract_consensus g' = abstract_consensus g @ [c]
                       \<and> verdictOf env crit Abstract study c))
           \<and> (state_file s' = state_file s
               \<or> (\<exists>f'. state_file s' = Some f' \<and> eraseAbstract f' = eraseAbstract g
                       \<and> (\<exists>zs. abstract_consensus f' = abstract_consensus g @ zs)))
           \<and> (case r of Inl e \<Rightarrow> True
               | Inr n \<Rightarrow> state_file s' = Some g'
                   \<and> (\<exists>c. abstract_consensus g' = abstract_consensus g @ [c]
                           \<and> verdictOf env crit Abstract study c))"
  using assms
  by (auto simp: abstractStep_def append_store_Some save_Some Let_def eraseAbstract_def
      split: sum.splits if_splits dest: resolveVerdict_abstract)

lemma fulltextStep_any:
  assumes "state s = Some g" and "criteria g = Some crit"
    and "fulltextStep env study n s = (s', r)"
  shows "\<exists>g'. state s' = Some g' \<and> eraseFulltext g' = eraseFulltext g
           \<and> (\<exists>vs. fulltext_decisions g' = fulltext_decisions g @ vs)
           \<and> (fulltext_consensus g' = fulltext_consensus g
               \<or> (\<exists>c. fulltext_consensus g' = fulltext_consensus g @ [c]
                       \<and> verdictOf env crit Fulltext study c))
           \<and> (state_file s' = state_file s
               \<or> (\<exists>f'. state_file s' = Some f' \<and> eraseFulltext f' = eraseFulltext g
                       \<and> (\<exists>zs. fulltext_consensus f' = fulltext_consensus g @ zs)))
           \<and> (case r of Inl e \<Rightarrow> True
               | Inr n' \<Rightarrow>
                   if hasPdf env study then
                     state_file s' = Some g'
                     \<and> (\<exists>c. fulltext_consensus g' = fulltext_consensus g @ [c]
                             \<and> verdictOf env crit Fulltext study c
                             \<and> n' = n + (if final_decision c = FInclude then 1 else 0))
                   else s' = s \<and> n' = n)"
proof (cases "extractPdfText env (study_id study)")
  case None
  then show ?thesis using assms by (auto simp: fulltextStep_def hasPdf_def)
next
  case (Some pdf)
  show ?thesis
  proof (cases "promiseAll (map (screenFulltext env crit study pdf) fulltextAgents)")
    case (Inl e)
    then show ?thesis using assms Some by (auto simp: fulltextStep_def)
  next
    case (Inr vs)
    show ?thesis
    proof (cases "resolveVerdict env crit study vs Fulltext (Some pdf)")
      case (Inl e)
      then show ?thesis using assms Some Inr by (auto simp: fulltextStep_def)
    next
      case (Inr c)
      from resolveVerdict_fulltext[OF Inr Some]
      have v: "verdictOf env crit Fulltext study c" by simp
      show ?thesis
        using assms Some \<open>promiseAll (map (screenFulltext env crit study pdf) fulltextAgents) = Inr vs\<close>
          Inr v
        by (auto simp: fulltextStep_def append_store_Some save_Some assign_Some Let_def
            eraseFulltext_def hasPdf_def split: if_splits)
    qed
  qed
qed

lemma abstractLoop_state:
  assumes "state s = Some g"
    and "abstractLoop env crit studs counts s = (s', r)"
  shows "\<exists>g' cs. state s' = Some g' \<and> eraseAbstract g' = eraseAbstract g
           \<and> abstract_consensus g' = abstract_consensus g @ cs
           \<and> list_all2 (\<lambda>c st. verdictOf env crit Abstract st c) cs (take (length cs) studs)
           \<and> (case r of Inl e \<Rightarrow> True | Inr n \<Rightarrow> length cs = length studs)"
  using assms
proof (induction studs arbitrary: s g counts)
  case Nil
  then show ?case by auto
next
  case (Cons study rest)
  obtain s1 r1 where step: "abstractStep env crit study counts s = (s1, r1)"
    by (cases "abstractStep env crit study counts s")
  from abstractStep_any[OF Cons.prems(1) step] obtain g1 where g1:
    "state s1 = Some g1" "eraseAbstract g1 = eraseAbstract g"
    "abstract_consensus g1 = abstract_consensus g
       \<or> (\<exists>c. abstract_consensus g1 = abstract_consensus g @ [c]
               \<and> verdictOf env crit Abstract study c)"
    "case r1 of Inl e \<Rightarrow> True
     | Inr n \<Rightarrow> state_file s1 = Some g1
         \<and> (\<exists>c. abstract_consensus g1 = abstract_consensus g @ [c]
                 \<and> verdictOf env crit Abstract study c)"
    by blast
  show ?case
  proof (cases r1)
    case (Inl e)
    then have res: "s' = s1" "r = Inl e" using Cons.prems(2) step by simp_all
    from g1(3) show ?thesis
    proof
      assume "abstract_consensus g1 = abstract_consensus g"
      then show ?thesis using g1(1,2) res by (intro exI[of _ g1] exI[of _ "[]"]) simp
    next
      assume "\<exists>c. abstract_consensus g1 = abstract_consensus g @ [c]
                \<and> verdictOf env crit Abstract study c"
      then obtain c where "abstract_consensus g1 = abstract_consensus g @ [c]"
        "verdictOf env crit Abstract study c" by blast
      then show ?thesis using g1(1,2) res by (intro exI[of _ g1] exI[of _ "[c]"]) simp
    qed
  next
    case (Inr n1)
    then have rest: "abstractLoop env crit rest n1 s1 = (s', r)"
      using Cons.prems(2) step by simp
    from g1(4) Inr obtain c where c: "abstract_consensus g1 = abstract_consensus g @ [c]"
      "verdictOf env crit Abstract study c" by auto
    from Cons.IH[OF g1(1) rest] obtain g' cs where IH:
      "state s' = Some g'" "eraseAbstract g' = eraseAbstract g1"
      "abstract_consensus g' = abstract_consensus g1 @ cs"
      "list_all2 (\<lambda>c st. verdictOf env crit Abstract st c) cs (take (length cs) rest)"
      "case r of Inl e \<Rightarrow> True | Inr n \<Rightarrow> length cs = length rest"
      by blast
    show ?thesis
      using IH c g1(2)
      by (intro exI[of _ g'] exI[of _ "c # cs"]) (auto split: sum.splits)
  qed
qed

lemma abstractLoop_file:
  assumes "state s = Some g" and "state_file s = Some g"
    and "abstractLoop env crit studs counts s = (s', r)"
  shows "(\<exists>f' zs. state_file s' = Some f' \<and> abstract_consensus f' = abstract_consensus g @ zs
            \<and> eraseAbstract f' = eraseAbstract g)
         \<and> (case r of Inl e \<Rightarrow> True | Inr n \<Rightarrow> state_file s' = state s')"
  using assms
proof (induction studs arbitrary: s g counts)
  case Nil
  then show ?case by auto
next
  case (Cons study rest)
  obtain s1 r1 where step: "abstractStep env crit study counts s = (s1, r1)"
    by (cases "abstractStep env crit study counts s")
  from abstractStep_any[OF Cons.prems(1) step] obtain g1 where g1:
    "state s1 = Some g1" "eraseAbstract g1 = eraseAbstract g"
    "state_file s1 = state_file s
       \<or> (\<exists>f'. state_file s1 = Some f' \<and> eraseAbstract f' = eraseAbstract g
               \<and> (\<exists>zs. abstract_consensus f' = abstract_consensus g @ zs))"
    "case r1 of Inl e \<Rightarrow> True
     | Inr n \<Rightarrow> state_file s1 = Some g1
         \<and> (\<exists>c. abstract_consensus g1 = abstract_consensus g @ [c]
                 \<and> verdictOf env crit Abstract study c)"
    by blast
  show ?case
  proof (cases r1)
    case (Inl e)
    then have res: "s' = s1" "r = Inl e" using Cons.prems(3) step by simp_all
    from g1(3) Cons.prems(2) res show ?thesis by auto
  next
    case (Inr n1)
    then have rest: "abstractLoop env crit rest n1 s1 = (s', r)"
      using Cons.prems(3) step by simp
    from g1(4) Inr obtain c where c: "state_file s1 = Some g1"
      "abstract_consensus g1 = abstract_consensus g @ [c]" by auto
    from Cons.IH[OF g1(1) c(1) rest] c(2) g1(2) show ?thesis by auto
  qed
qed

lemma criteria_eraseFulltext:
  "eraseFulltext g' = eraseFulltext g \<Longrightarrow> criteria g' = criteria g"
  by (drule arg_cong[where f = criteria]) (simp add: eraseFulltext_def)

lemma fulltextLoop_state:
  assumes "state s = Some g" and "criteria g = Some crit"
    and "fulltextLoop env studs n s = (s', r)"
  shows "\<exists>g' cs. state s' = Some g' \<and> eraseFulltext g' = eraseFulltext g
           \<and> fulltext_consensus g' = fulltext_consensus g @ cs
           \<and> list_all2 (\<lambda>c st. verdictOf env crit Fulltext st c) cs
                (take (length cs) (filter (hasPdf env) studs))
           \<and> (case r of Inl e \<Rightarrow> True
               | Inr n' \<Rightarrow> length cs = length (filter (hasPdf env) studs)
                   \<and> n' = n + length (filter (\<lambda>c. final_decision c = FInclude) cs))"
  using assms
proof (induction studs arbitrary: s g n)
  case Nil
  then show ?case by auto
next
  case (Cons study rest)
  obtain s1 r1 where step: "fulltextStep env study n s = (s1, r1)"
    by (cases "fulltextStep env study n s")
  from fulltextStep_any[OF Cons.prems(1,2) step] obtain g1 where g1:
    "state s1 = Some g1" "eraseFulltext g1 = eraseFulltext g"
    "fulltext_consensus g1 = fulltext_consensus g
       \<or> (\<exists>c. fulltext_consensus g1 = fulltext_consensus g @ [c]
               \<and> verdictOf env crit Fulltext study c)"
    "case r1 of Inl e \<Rightarrow> True
     | Inr n' \<Rightarrow>
         if hasPdf env study then
           state_file s1 = Some g1
           \<and> (\<exists>c. fulltext_consensus g1 = fulltext_consensus g @ [c]
                   \<and> verdictOf env crit Fulltext study c
                   \<and> n' = n + (if final_decision c = FInclude then 1 else 0))
         else s1 = s \<and> n' = n"
    by blast
  have crit1: "criteria g1 = Some crit"
    using criteria_eraseFulltext[OF g1(2)] Cons.prems(2) by simp
  show ?case
  proof (cases r1)
    case (Inl e)
    then have res: "s' = s1" "r = Inl e" using Cons.prems(3) step by simp_all
    have hp: "hasPdf env study \<or> fulltext_consensus g1 = fulltext_consensus g"
      using step Cons.prems(1) g1(1) Inl
      by (auto simp: fulltextStep_def hasPdf_def split: option.splits)
    from g1(3) show ?thesis
    proof
      assume "fulltext_consensus g1 = fulltext_consensus g"
      then show ?thesis using g1(1,2) res by (intro exI[of _ g1] exI[of _ "[]"]) simp
    next
      assume "\<exists>c. fulltext_consensus g1 = fulltext_consensus g @ [c]
                \<and> verdictOf env crit Fulltext study c"
      then obtain c where c: "fulltext_consensus g1 = fulltext_consensus g @ [c]"
        "verdictOf env crit Fulltext study c" by blast
      then have "hasPdf env study" using hp by auto
      then show ?thesis using g1(1,2) res c by (intro exI[of _ g1] exI[of _ "[c]"]) simp
    qed
  next
    case (Inr n1)
    then have rest: "fulltextLoop env rest n1 s1 = (s', r)"
      using Cons.prems(3) step by simp
    from Cons.IH[OF g1(1) crit1 rest] obtain g' cs where IH:
      "state s' = Some g'" "eraseFulltext g' = eraseFulltext g1"
      "fulltext_consensus g' = fulltext_consensus g1 @ cs"
      "list_all2 (\<lambda>c st. verdictOf env crit Fulltext st c) cs
         (take (length cs) (filter (hasPdf env) rest))"
      "case r of Inl e \<Rightarrow> True
       | Inr n' \<Rightarrow> length cs = length (filter (hasPdf env) rest)
           \<and> n' = n1 + length (filter (\<lambda>c. final_decision c = FInclude) cs)"
      by blast
    show ?thesis
    proof (cases "hasPdf env study")
      case True
      with g1(4) Inr obtain c where c: "fulltext_consensus g1 = fulltext_consensus g @ [c]"
        "verdictOf env crit Fulltext study c"
        "n1 = n + (if final_decision c = FInclude then 1 else 0)" by auto
      show ?thesis
        using IH c g1(2) True
        by (intro exI[of _ g'] exI[of _ "c # cs"]) (auto split: sum.splits)
    next
      case False
      with g1(4) Inr have same: "s1 = s" "n1 = n" by auto
      then have "g1 = g" using g1(1) Cons.prems(1) by simp
      then show ?thesis
        using IH False same
        by (intro exI[of _ g'] exI[of _ cs]) (auto split: sum.splits)
    qed
  qed
qed

lemma fulltextLoop_file:
  assumes "state s = Some g" and "state_file s = Some g" and "criteria g = Some crit"
    and "fulltextLoop env studs n s = (s', r)"
  shows "(\<exists>f' zs. state_file s' = Some f' \<and> fulltext_consensus f' = fulltext_consensus g @ zs
            \<and> eraseFulltext f' = eraseFulltext g)
         \<and> (case r of Inl e \<Rightarrow> True | Inr n' \<Rightarrow> state_file s' = state s')"
  using assms
proof (induction studs arbitrary: s g n)
  case Nil
  then show ?case by auto
next
  case (Cons study rest)
  obtain s1 r1 where step: "fulltextStep env study n s = (s1, r1)"
    by (cases "fulltextStep env study n s")
  from fulltextStep_any[OF Cons.prems(1,3) step] obtain g1 where g1:
    "state s1 = Some g1" "eraseFulltext g1 = eraseFulltext g"
    "state_file s1 = state_file s
       \<or> (\<exists>f'. state_file s1 = Some f' \<and> eraseFulltext f' = eraseFulltext g
               \<and> (\<exists>zs. fulltext_consensus f' = fulltext_consensus g @ zs))"
    "case r1 of Inl e \<Rightarrow> True
     | Inr n' \<Rightarrow>
         if hasPdf env study then
           state_file s1 = Some g1
           \<and> (\<exists>c. fulltext_consensus g1 = fulltext_consensus g @ [c]
                   \<and> verdictOf env crit Fulltext study c
                   \<and> n' = n + (if final_decision c = FInclude then 1 else 0))
         else s1 = s \<and> n' = n"
    by blast
  have crit1: "criteria g1 = Some crit"
    using criteria_eraseFulltext[OF g1(2)] Cons.prems(3) by simp
  show ?case
  proof (cases r1)
    case (Inl e)
    then have res: "s' = s1" "r = Inl e" using Cons.prems(4) step by simp_all
    from g1(3) Cons.prems(2) res show ?thesis by auto
  next
    case (Inr n1)
    then have rest: "fulltextLoop env rest n1 s1 = (s', r)"
      using Cons.prems(4) step by simp
    show ?thesis
    proof (cases "hasPdf env study")
      case True
      with g1(4) Inr obtain c where c: "state_file s1 = Some g1"
        "fulltext_consensus g1 = fulltext_consensus g @ [c]" by auto
      from Cons.IH[OF g1(1) c(1) crit1 rest] c(2) g1(2) show ?thesis by auto
    next
      case False
      with g1(4) Inr have same: "s1 = s" by auto
      then have "g1 = g" using g1(1) Cons.prems(1) by simp
      with Cons.IH[OF g1(1) _ crit1 rest] same Cons.prems(2) show ?thesis by auto
    qed
  qed
qed

lemma abstractLoop_append:
  "abstractLoop env crit (pre @ post) counts s =
     (case abstractLoop env crit pre counts s of
        (s1, Inl e) \<Rightarrow> (s1, Inl e)
      | (s1, Inr counts1) \<Rightarrow> abstractLoop env crit post counts1 s1)"
  by (induction pre arbitrary: counts s) (auto split: prod.splits sum.splits)

lemma fulltextLoop_append:
  "fulltextLoop env (pre @ post) n s =
     (case fulltextLoop env pre n s of
        (s1, Inl e) \<Rightarrow> (s1, Inl e)
      | (s1, Inr n1) \<Rightarrow> fulltextLoop env post n1 s1)"
  by (induction pre arbitrary: n s) (auto split: prod.splits sum.splits)

lemma verdictOf_ids:
  "list_all2 (\<lambda>c st. verdictOf env crit stage st c) cs sts \<Longrightarrow>
   map cd_study_id cs = map study_id sts"
  by (induction cs sts rule: list_all2_induct) (auto simp: verdictOf_def)

lemma resolveVerdict_returns:
  assumes "escalates (study_id study) vs stage"
    and "adjudicate env study vs crit stage pdfText = Inr a"
    and "ar_adjudicator_rationale a \<noteq> []"
  shows "\<exists>c. resolveVerdict env crit study vs stage pdfText = Inr c
           \<and> final_decision c = ar_final_decision a"
  using assms
  by (auto simp: resolveVerdict_def escalates_def createConsensusDecision_def falsy_def
      split: sum.splits)

text \<open>
  Claim C1. Started on an initialised store with criteria, each screening stage only
  appends to its list of consensus decisions, one decision per record in the order in
  which the stage takes the records (for the full-text stage the records with an
  extractable PDF), and every appended decision is a faithful verdict of its record: if
  its three votes meet the escalation condition, its final decision is the decision that
  the adjudication oracle returned for this record and these votes, and its rationale is
  the oracle's. This holds whether the stage completes or throws part-way; when it
  completes, every record has its decision and the state file holds them. Moreover,
  whenever the votes escalate and the oracle answers with a non-empty rationale, a
  verdict is produced and carries the oracle's decision.
\<close>

theorem stored_verdict_is_adjudicators:
  assumes "state s = Some g" and "criteria g = Some crit"
  shows "(\<exists>g' cs. state (fst (abstractScreening env s)) = Some g'
            \<and> abstract_consensus g' = abstract_consensus g @ cs
            \<and> list_all2 (\<lambda>c st. verdictOf env crit Abstract st c) cs
                 (take (length cs) (studies g))
            \<and> (snd (abstractScreening env s) = None \<longrightarrow>
                 length cs = length (studies g)
                 \<and> state_file (fst (abstractScreening env s)) = Some g'))
       \<and> (\<exists>g' cs. state (fst (fullTextScreening env s)) = Some g'
            \<and> fulltext_consensus g' = fulltext_consensus g @ cs
            \<and> list_all2 (\<lambda>c st. verdictOf env crit Fulltext st c) cs
                 (take (length cs)
                    (filter (hasPdf env) (includedStudies (abstract_consensus g) (studies g))))
            \<and> (snd (fullTextScreening env s) = None \<longrightarrow>
                 length cs = length (filter (hasPdf env)
                               (includedStudies (abstract_consensus g) (studies g)))
                 \<and> state_file (fst (fullTextScreening env s)) = Some g'))
       \<and> (escalates (study_id study) vs stage
            \<and> adjudicate env study vs crit stage pdfText = Inr a
            \<and> ar_adjudicator_rationale a \<noteq> [] \<longrightarrow>
            (\<exists>c. resolveVerdict env crit study vs stage pdfText = Inr c
               \<and> final_decision c = ar_final_decision a))"
proof (intro conjI)
  obtain s1 r1 where loop: "abstractLoop env crit (studies g) (0, 0) s = (s1, r1)"
    by (cases "abstractLoop env crit (studies g) (0, 0) s")
  from abstractLoop_state[OF assms(1) loop] obtain g1 cs where g1:
    "state s1 = Some g1" "abstract_consensus g1 = abstract_consensus g @ cs"
    "list_all2 (\<lambda>c st. verdictOf env crit Abstract st c) cs (take (length cs) (studies g))"
    "case r1 of Inl e \<Rightarrow> True | Inr n \<Rightarrow> length cs = length (studies g)"
    by blast
  show "\<exists>g' cs. state (fst (abstractScreening env s)) = Some g'
            \<and> abstract_consensus g' = abstract_consensus g @ cs
            \<and> list_all2 (\<lambda>c st. verdictOf env crit Abstract st c) cs
                 (take (length cs) (studies g))
            \<and> (snd (abstractScreening env s) = None \<longrightarrow>
                 length cs = length (studies g)
                 \<and> state_file (fst (abstractScreening env s)) = Some g')"
    using assms loop g1
    by (cases r1)
      (auto simp: abstractScreening_def assign_Some save_Some split: if_splits)
next
  let ?inc = "includedStudies (abstract_consensus g) (studies g)"
  obtain s1 r1 where loop: "fulltextLoop env ?inc 0 s = (s1, r1)"
    by (cases "fulltextLoop env ?inc 0 s")
  from fulltextLoop_state[OF assms(1,2) loop] obtain g1 cs where g1:
    "state s1 = Some g1" "fulltext_consensus g1 = fulltext_consensus g @ cs"
    "list_all2 (\<lambda>c st. verdictOf env crit Fulltext st c) cs
       (take (length cs) (filter (hasPdf env) ?inc))"
    "case r1 of Inl e \<Rightarrow> True
     | Inr n' \<Rightarrow> length cs = length (filter (hasPdf env) ?inc)
         \<and> n' = 0 + length (filter (\<lambda>c. final_decision c = FInclude) cs)"
    by blast
  show "\<exists>g' cs. state (fst (fullTextScreening env s)) = Some g'
            \<and> fulltext_consensus g' = fulltext_consensus g @ cs
            \<and> list_all2 (\<lambda>c st. verdictOf env crit Fulltext st c) cs
                 (take (length cs) (filter (hasPdf env) ?inc))
            \<and> (snd (fullTextScreening env s) = None \<longrightarrow>
                 length cs = length (filter (hasPdf env) ?inc)
                 \<and> state_file (fst (fullTextScreening env s)) = Some g')"
    using assms loop g1
    by (cases r1)
      (auto simp: fullTextScreening_def assign_Some save_Some split: if_splits)
next
  show "escalates (study_id study) vs stage
            \<and> adjudicate env study vs crit stage pdfText = Inr a
            \<and> ar_adjudicator_rationale a \<noteq> [] \<longrightarrow>
            (\<exists>c. resolveVerdict env crit study vs stage pdfText = Inr c
               \<and> final_decision c = ar_final_decision a)"
    using resolveVerdict_returns by blast
qed

text \<open>
  The scenario of the claim: the panel votes include, exclude, unsure on the one record
  of the state and the adjudicator returns exclude; the decision stored, in memory and
  on file, has final decision exclude.
\<close>

theorem stored_verdict_is_adjudicators_witness:
  "state (loaded (ingestedState [studyA])) = Some (ingestedState [studyA])
   \<and> criteria (ingestedState [studyA]) = Some crit0
   \<and> (\<exists>g' cs. state (fst (abstractScreening panelEnv (loaded (ingestedState [studyA])))) = Some g'
         \<and> abstract_consensus g' = abstract_consensus (ingestedState [studyA]) @ cs
         \<and> list_all2 (\<lambda>c st. verdictOf panelEnv crit0 Abstract st c) cs
              (take (length cs) (studies (ingestedState [studyA]))))
   \<and> map_option (map final_decision \<circ> abstract_consensus)
        (state_file (fst (abstractScreening panelEnv (loaded (ingestedState [studyA])))))
      = Some [FExclude]
   \<and> map_option (map (map decision \<circ> votes) \<circ> abstract_consensus)
        (state_file (fst (abstractScreening panelEnv (loaded (ingestedState [studyA])))))
      = Some [[Include, Exclude, Unsure]]"
proof -
  have h1: "state (loaded (ingestedState [studyA])) = Some (ingestedState [studyA])"
    by (simp add: loaded_def)
  have h2: "criteria (ingestedState [studyA]) = Some crit0"
    by (simp add: ingestedState_def)
  have e1: "map_option (map final_decision \<circ> abstract_consensus)
        (state_file (fst (abstractScreening panelEnv (loaded (ingestedState [studyA])))))
      = Some [FExclude]"
    by code_simp
  have e2: "map_option (map (map decision \<circ> votes) \<circ> abstract_consensus)
        (state_file (fst (abstractScreening panelEnv (loaded (ingestedState [studyA])))))
      = Some [[Include, Exclude, Unsure]]"
    by code_simp
  from stored_verdict_is_adjudicators[OF h1 h2, of panelEnv] h1 h2 e1 e2
  show ?thesis by blast
qed

text \<open>
  Claim C8. Take a screening loop started on a store whose file holds its state. At the
  point where the records \<open>pre\<close> have been resolved, the state file holds exactly the
  in-memory state, with one verdict appended for each record of \<open>pre\<close> (for the
  full-text loop: each record of \<open>pre\<close> with an extractable PDF), in order. And however
  the loop goes on over the further records \<open>post\<close>, to its end or to a throw, the state
  file it leaves still begins with all those verdicts: a failure loses at most the
  record in flight.
\<close>

theorem verdicts_persisted_after_every_record:
  assumes "state s = Some g" and "state_file s = Some g" and "criteria g = Some crit"
  shows "(abstractLoop env crit pre counts s = (s1, Inr counts1) \<longrightarrow>
            (\<exists>g1 cs. state s1 = Some g1 \<and> state_file s1 = Some g1
               \<and> abstract_consensus g1 = abstract_consensus g @ cs
               \<and> map cd_study_id cs = map study_id pre
               \<and> (\<exists>f' zs. state_file (fst (abstractLoop env crit (pre @ post) counts s)) = Some f'
                     \<and> abstract_consensus f' = abstract_consensus g1 @ zs)))
       \<and> (fulltextLoop env pre n s = (s2, Inr n2) \<longrightarrow>
            (\<exists>g2 cs. state s2 = Some g2 \<and> state_file s2 = Some g2
               \<and> fulltext_consensus g2 = fulltext_consensus g @ cs
               \<and> map cd_study_id cs = map study_id (filter (hasPdf env) pre)
               \<and> (\<exists>f' zs. state_file (fst (fulltextLoop env (pre @ post) n s)) = Some f'
                     \<and> fulltext_consensus f' = fulltext_consensus g2 @ zs)))"
proof (intro conjI impI)
  assume pre: "abstractLoop env crit pre counts s = (s1, Inr counts1)"
  from abstractLoop_state[OF assms(1) pre] obtain g1 cs where g1:
    "state s1 = Some g1" "abstract_consensus g1 = abstract_consensus g @ cs"
    "list_all2 (\<lambda>c st. verdictOf env crit Abstract st c) cs (take (length cs) pre)"
    "length cs = length pre"
    by auto
  from abstractLoop_file[OF assms(1,2) pre] g1(1) have f1: "state_file s1 = Some g1"
    by simp
  obtain s' r where post: "abstractLoop env crit post counts1 s1 = (s', r)"
    by (cases "abstractLoop env crit post counts1 s1")
  from abstractLoop_file[OF g1(1) f1 post] obtain f' zs where
    "state_file s' = Some f'" "abstract_consensus f' = abstract_consensus g1 @ zs"
    by blast
  moreover have "fst (abstractLoop env crit (pre @ post) counts s) = s'"
    using pre post by (simp add: abstractLoop_append)
  moreover have "map cd_study_id cs = map study_id pre"
    using verdictOf_ids[OF g1(3)] g1(4) by simp
  ultimately show "\<exists>g1 cs. state s1 = Some g1 \<and> state_file s1 = Some g1
               \<and> abstract_consensus g1 = abstract_consensus g @ cs
               \<and> map cd_study_id cs = map study_id pre
               \<and> (\<exists>f' zs. state_file (fst (abstractLoop env crit (pre @ post) counts s)) = Some f'
                     \<and> abstract_consensus f' = abstract_consensus g1 @ zs)"
    using g1 f1 by auto
next
  assume pre: "fulltextLoop env pre n s = (s2, Inr n2)"
  from fulltextLoop_state[OF assms(1,3) pre] obtain g2 cs where g2:
    "state s2 = Some g2" "fulltext_consensus g2 = fulltext_consensus g @ cs"
    "eraseFulltext g2 = eraseFulltext g"
    "list_all2 (\<lambda>c st. verdictOf env crit Fulltext st c) cs
       (take (length cs) (filter (hasPdf env) pre))"
    "length cs = length (filter (hasPdf env) pre)"
    by auto
  from fulltextLoop_file[OF assms(1,2,3) pre] g2(1) have f2: "state_file s2 = Some g2"
    by simp
  have crit2: "criteria g2 = Some crit"
    using criteria_eraseFulltext[OF g2(3)] assms(3) by simp
  obtain s' r where post: "fulltextLoop env post n2 s2 = (s', r)"
    by (cases "fulltextLoop env post n2 s2")
  from fulltextLoop_file[OF g2(1) f2 crit2 post] obtain f' zs where
    "state_file s' = Some f'" "fulltext_consensus f' = fulltext_consensus g2 @ zs"
    by blast
  moreover have "fst (fulltextLoop env (pre @ post) n s) = s'"
    using pre post by (simp add: fulltextLoop_append)
  moreover have "map cd_study_id cs = map study_id (filter (hasPdf env) pre)"
    using verdictOf_ids[OF g2(4)] g2(5) by simp
  ultimately show "\<exists>g2 cs. state s2 = Some g2 \<and> state_file s2 = Some g2
               \<and> fulltext_consensus g2 = fulltext_consensus g @ cs
               \<and> map cd_study_id cs = map study_id (filter (hasPdf env) pre)
               \<and> (\<exists>f' zs. state_file (fst (fulltextLoop env (pre @ post) n s)) = Some f'
                     \<and> fulltext_consensus f' = fulltext_consensus g2 @ zs)"
    using g2 f2 by auto
qed

theorem verdicts_persisted_after_every_record_witness:
  "state (loaded (ingestedState [studyA, studyB])) = Some (ingestedState [studyA, studyB])
   \<and> state_file (loaded (ingestedState [studyA, studyB])) = Some (ingestedState [studyA, studyB])
   \<and> criteria (ingestedState [studyA, studyB]) = Some crit0
   \<and> abstractLoop panelEnv crit0 [studyA] (0, 0) (loaded (ingestedState [studyA, studyB]))
       = (fst (abstractLoop panelEnv crit0 [studyA] (0, 0)
                (loaded (ingestedState [studyA, studyB]))), Inr (0, 1))
   \<and> fulltextLoop panelEnv [studyA] 0 (loaded (ingestedState [studyA, studyB]))
       = (fst (fulltextLoop panelEnv [studyA] 0 (loaded (ingestedState [studyA, studyB]))),
          Inr 0)
   \<and> (\<exists>g1 cs. state_file (fst (abstractLoop panelEnv crit0 [studyA] (0, 0)
                     (loaded (ingestedState [studyA, studyB])))) = Some g1
         \<and> abstract_consensus g1 = abstract_consensus (ingestedState [studyA, studyB]) @ cs
         \<and> map cd_study_id cs = map study_id [studyA])
   \<and> (\<exists>g2 cs. state_file (fst (fulltextLoop panelEnv [studyA] 0
                     (loaded (ingestedState [studyA, studyB])))) = Some g2
         \<and> fulltext_consensus g2 = fulltext_consensus (ingestedState [studyA, studyB]) @ cs
         \<and> map cd_study_id cs = map study_id (filter (hasPdf panelEnv) [studyA]))"
proof -
  let ?g = "ingestedState [studyA, studyB]"
  have h1: "state (loaded ?g) = Some ?g" and h2: "state_file (loaded ?g) = Some ?g"
    by (simp_all add: loaded_def)
  have h3: "criteria ?g = Some crit0"
    by (simp add: ingestedState_def)
  have "snd (abstractLoop panelEnv crit0 [studyA] (0, 0) (loaded ?g)) = Inr (0, 1)"
    by code_simp
  then have a: "abstractLoop panelEnv crit0 [studyA] (0, 0) (loaded ?g)
       = (fst (abstractLoop panelEnv crit0 [studyA] (0, 0) (loaded ?g)), Inr (0, 1))"
    by (simp add: prod_eq_iff)
  have "snd (fulltextLoop panelEnv [studyA] 0 (loaded ?g)) = Inr 0"
    by code_simp
  then have f: "fulltextLoop panelEnv [studyA] 0 (loaded ?g)
       = (fst (fulltextLoop panelEnv [studyA] 0 (loaded ?g)), Inr 0)"
    by (simp add: prod_eq_iff)
  from verdicts_persisted_after_every_record[OF h1 h2 h3,
      of panelEnv "[studyA]" "(0, 0)"
         "fst (abstractLoop panelEnv crit0 [studyA] (0, 0) (loaded ?g))" "(0, 1)" "[studyB]"
         0 "fst (fulltextLoop panelEnv [studyA] 0 (loaded ?g))" 0]
    h1 h2 h3 a f
  show ?thesis by blast
qed

section \<open>Properties of the driver\<close>






















section \<open>The funnel counters\<close>



































end
